theory Spec2Isabelle
  imports Complex_Main "HOL-Library.Word"
begin

section \<open>Numbers of the program\<close>

text \<open>
  The loaders are TypeScript; every number in them is an IEEE double. A number is
  modelled as a real, or one of the three values that are no real: \<open>NaN\<close> and the two
  infinities (\<open>parseFloat\<close> yields all three, and \<open>undefined\<close> turns into \<open>NaN\<close> wherever
  it meets arithmetic). Arithmetic on \<open>Num\<close> is exact, which is what double arithmetic
  is on integers of magnitude up to \<open>2 ^ 53\<close>; rounding beyond that is modelled only
  where a loop counter meets it (\<open>js_inc\<close>).
\<close>

datatype jsnum = NaN | NegInf | Num real | PosInf

text \<open>The relational operator \<open><\<close> on numbers: false as soon as one side is \<open>NaN\<close>.\<close>

fun js_lt :: "jsnum \<Rightarrow> jsnum \<Rightarrow> bool" where
  "js_lt NaN b = False"
| "js_lt a NaN = False"
| "js_lt PosInf b = False"
| "js_lt a NegInf = False"
| "js_lt NegInf b = True"
| "js_lt a PosInf = True"
| "js_lt (Num a) (Num b) = (a < b)"

text \<open>
  Addition, with the rules for \<open>NaN\<close> and the infinities; \<open>Math.min\<close>, which is \<open>NaN\<close> as
  soon as one argument is; and \<open>x++\<close>. The increment is exact up to \<open>2 ^ 53\<close>, where
  \<open>2 ^ 53 + 1\<close> rounds back to \<open>2 ^ 53\<close>: a counter that reaches this value stays
  there. (It is the double's increment for every integer from \<open>- 2 ^ 53\<close> to \<open>2 ^ 53\<close>;
  the loaders' counters start at 0 or at an array entry.)
\<close>

fun js_add :: "jsnum \<Rightarrow> jsnum \<Rightarrow> jsnum" where
  "js_add NaN b = NaN"
| "js_add a NaN = NaN"
| "js_add PosInf NegInf = NaN"
| "js_add NegInf PosInf = NaN"
| "js_add PosInf b = PosInf"
| "js_add a PosInf = PosInf"
| "js_add NegInf b = NegInf"
| "js_add a NegInf = NegInf"
| "js_add (Num a) (Num b) = Num (a + b)"

fun js_min :: "jsnum \<Rightarrow> jsnum \<Rightarrow> jsnum" where
  "js_min NaN b = NaN"
| "js_min a NaN = NaN"
| "js_min a b = (if js_lt b a then b else a)"

fun js_inc :: "jsnum \<Rightarrow> jsnum" where
  "js_inc (Num r) = (if r = 2 ^ 53 then Num r else Num (r + 1))"
| "js_inc a = a"

text \<open>
  \<open>xs[k]\<close> for a number \<open>k\<close>: the entry when \<open>k\<close> is an index of the array, and
  \<open>undefined\<close> (here \<open>None\<close>) for every other number: negative, fractional, past the
  end, \<open>NaN\<close> or infinite. \<open>js_read\<close> is the same read where the program uses the
  result only as a number (in \<open>===\<close> against a number and in \<open>+\<close>), where \<open>undefined\<close>
  behaves as \<open>NaN\<close> does.
\<close>

definition js_index :: "'a list \<Rightarrow> jsnum \<Rightarrow> 'a option" where
  "js_index xs k =
     (case k of
        Num r \<Rightarrow>
          (if 0 \<le> r \<and> r = of_int \<lfloor>r\<rfloor> \<and> nat \<lfloor>r\<rfloor> < length xs
           then Some (xs ! nat \<lfloor>r\<rfloor>) else None)
      | _ \<Rightarrow> None)"

definition js_read :: "jsnum list \<Rightarrow> jsnum \<Rightarrow> jsnum" where
  "js_read xs k = (case js_index xs k of Some v \<Rightarrow> v | None \<Rightarrow> NaN)"

text \<open>
  What the loaders throw: the \<open>RangeError\<close> and the \<open>TypeError\<close> of the language, and
  \<open>new Error(message)\<close>. A computation that may throw returns \<open>Inl\<close> of the error or \<open>Inr\<close>
  of its value.
\<close>

datatype error = RangeError | TypeError | Error string

section \<open>The cell triangulation engine (\<open>src/utils/vtkUtils.ts\<close>)\<close>

text \<open>
  \<open>triangulateCell(type, cellIndices, indices)\<close> pushes triangles onto \<open>indices\<close> and
  returns how many it pushed. The model takes the buffer and returns the buffer after
  the call together with the count. The entries of \<open>cellIndices\<close> are only copied,
  never inspected, so their type is a parameter. Every read \<open>cellIndices[j]\<close> of the
  source stands behind a length test that makes it a read in range.
\<close>

text \<open>The \<open>for\<close> loop of case 7, from \<open>k\<close> on: the fan around vertex 0.\<close>

function fan_loop :: "'a list \<Rightarrow> nat \<Rightarrow> 'a list \<Rightarrow> 'a list" where
  "fan_loop cellIndices k indices =
     (if k < length cellIndices - 1
      then fan_loop cellIndices (k + 1)
             (indices @ [cellIndices ! 0, cellIndices ! k, cellIndices ! (k + 1)])
      else indices)"
  by pat_completeness auto
termination
  by (relation "measure (\<lambda>(cellIndices, k, indices). length cellIndices - 1 - k)") auto

declare fan_loop.simps [simp del]

definition hexFaces :: "nat list list" where
  "hexFaces = [[0, 1, 5, 4], [1, 2, 6, 5], [2, 3, 7, 6], [3, 0, 4, 7],
               [0, 3, 2, 1], [4, 5, 6, 7]]"

definition wedgeQuads :: "nat list list" where
  "wedgeQuads = [[0, 1, 4, 3], [1, 2, 5, 4], [2, 0, 3, 5]]"

text \<open>
  The body of the loops over \<open>hexFaces\<close> and \<open>wedgeQuads\<close>: the face's four entries
  are looked up, and the quad is pushed as two triangles split along its 0-2 diagonal.
\<close>

definition push_quad :: "'a list \<Rightarrow> 'a list \<Rightarrow> nat list \<Rightarrow> 'a list" where
  "push_quad cellIndices indices face =
     (let idx = map (\<lambda>id. cellIndices ! id) face
      in indices @ [idx ! 0, idx ! 1, idx ! 2] @ [idx ! 0, idx ! 2, idx ! 3])"

definition push_faces :: "'a list \<Rightarrow> nat list list \<Rightarrow> 'a list \<Rightarrow> 'a list" where
  "push_faces cellIndices faces indices = foldl (push_quad cellIndices) indices faces"

text \<open>
  The \<open>switch\<close> on the type code compares with \<open>===\<close>, so only the number itself
  matches a case. The count returned is \<open>(indices.length - initialLength) / 3\<close>; the
  buffer only grows by whole triples (\<open>triangulateCell_grows_by_triples\<close> below), so the
  division is exact and is written \<open>div\<close>.
\<close>

definition triangulateCell :: "jsnum \<Rightarrow> 'a list \<Rightarrow> 'a list \<Rightarrow> 'a list \<times> nat" where
  "triangulateCell type cellIndices indices =
     (let initialLength = length indices;
          c = cellIndices;
          indices' =
            (if type = Num 5 then
               (if length c \<ge> 3 then indices @ [c ! 0, c ! 1, c ! 2] else indices)
             else if type = Num 7 then
               (if length c \<ge> 3 then fan_loop c 1 indices else indices)
             else if type = Num 9 then
               (if length c \<ge> 4
                then indices @ [c ! 0, c ! 1, c ! 2] @ [c ! 0, c ! 2, c ! 3]
                else indices)
             else if type = Num 10 then
               (if length c \<ge> 4
                then indices @ [c ! 0, c ! 1, c ! 2] @ [c ! 0, c ! 2, c ! 3]
                             @ [c ! 0, c ! 3, c ! 1] @ [c ! 1, c ! 3, c ! 2]
                else indices)
             else if type = Num 12 then
               (if length c \<ge> 8 then push_faces c hexFaces indices else indices)
             else if type = Num 13 then
               (if length c \<ge> 6
                then push_faces c wedgeQuads
                       (indices @ [c ! 0, c ! 1, c ! 2] @ [c ! 3, c ! 5, c ! 4])
                else indices)
             else if type = Num 14 then
               (if length c \<ge> 5
                then indices @ [c ! 0, c ! 1, c ! 2] @ [c ! 0, c ! 2, c ! 3]
                             @ [c ! 0, c ! 1, c ! 4] @ [c ! 1, c ! 2, c ! 4]
                             @ [c ! 2, c ! 3, c ! 4] @ [c ! 3, c ! 0, c ! 4]
                else indices)
             else indices)
      in (indices', (length indices' - initialLength) div 3))"

section \<open>The cell walks of the two loaders\<close>

text \<open>
  Both \<open>parse\<close> methods end the treatment of cell \<open>i\<close> with the same two statements:
  \<open>triangulateCell(type, cellIndices, indices)\<close>, then \<open>cellIdMap.push(i)\<close> once per
  triangle added. The state of a walk is the pair of \<open>indices\<close> and \<open>cellIdMap\<close>.
\<close>

definition emit_cell ::
  "nat \<Rightarrow> jsnum \<Rightarrow> 'a list \<Rightarrow> 'a list \<times> nat list \<Rightarrow> 'a list \<times> nat list" where
  "emit_cell i type cellIndices st =
     (case st of (indices, cellIdMap) \<Rightarrow>
        (case triangulateCell type cellIndices indices of (indices', trianglesAdded) \<Rightarrow>
           (indices', cellIdMap @ replicate trianglesAdded i)))"

subsection \<open>The XML loader (\<open>VTULoader.parse\<close>, \<open>src/unnamed/part_000\<close>, lines 155-183)\<close>

text \<open>
  The inner loop \<open>for (k = currentOffset; k < nextOffset; k++)\<close>. Its guard does not
  look at the array, so a bound that \<open>k\<close> never reaches keeps it running: the loop is
  a partial function, and \<open>None\<close> says that it does not return. The entries pushed are
  reads \<open>connectivity[k]\<close>, which are \<open>undefined\<close> where \<open>k\<close> is no index.
\<close>

partial_function (option) slice_loop ::
  "'a list \<Rightarrow> jsnum \<Rightarrow> jsnum \<Rightarrow> 'a option list \<Rightarrow> 'a option list option" where
  "slice_loop connectivity nextOffset k cellIndices =
     (if js_lt k nextOffset
      then slice_loop connectivity nextOffset (js_inc k)
             (if js_lt k (Num (real (length connectivity)))
              then cellIndices @ [js_index connectivity k] else cellIndices)
      else Some cellIndices)"

declare slice_loop.simps [code]

definition safeNumCells :: "jsnum \<Rightarrow> 'b list \<Rightarrow> 'c list \<Rightarrow> jsnum" where
  "safeNumCells numberOfCells offsets types =
     js_min (js_min numberOfCells (Num (real (length offsets)))) (Num (real (length types)))"

text \<open>
  The outer loop \<open>for (i = 0; i < safeNumCells; i++)\<close>, from \<open>i\<close> on. \<open>numberOfCells\<close> is
  the \<open>parseInt\<close> of an attribute: an integer or \<open>NaN\<close>.
\<close>

function vtu_loop ::
  "jsnum \<Rightarrow> 'a list \<Rightarrow> jsnum list \<Rightarrow> jsnum list \<Rightarrow> nat \<Rightarrow> jsnum \<Rightarrow>
   'a option list \<times> nat list \<Rightarrow> ('a option list \<times> nat list) option" where
  "vtu_loop numberOfCells connectivity offsets types i currentOffset st =
     (if js_lt (Num (real i)) (safeNumCells numberOfCells offsets types) then
        (let nextOffset = offsets ! i; type = types ! i in
         case slice_loop connectivity nextOffset currentOffset [] of
           None \<Rightarrow> None
         | Some cellIndices \<Rightarrow>
             vtu_loop numberOfCells connectivity offsets types (i + 1) nextOffset
               (emit_cell i type cellIndices st))
      else Some st)"
  by pat_completeness auto
termination
proof (relation "measure (\<lambda>(numberOfCells, connectivity, offsets, types, i, currentOffset, st).
                    length offsets - i)", goal_cases)
  case 1
  show ?case by simp
next
  case (2 numberOfCells connectivity offsets types i currentOffset st nextOffset type cellIndices)
  then have "i < length offsets"
    by (cases numberOfCells) (auto simp add: safeNumCells_def split: if_splits)
  then show ?case by simp
qed

declare vtu_loop.simps [simp del]

definition vtu_walk ::
  "jsnum \<Rightarrow> 'a list \<Rightarrow> jsnum list \<Rightarrow> jsnum list \<Rightarrow> ('a option list \<times> nat list) option" where
  "vtu_walk numberOfCells connectivity offsets types =
     vtu_loop numberOfCells connectivity offsets types 0 (Num 0) ([], [])"

subsection \<open>The legacy loader (\<open>VTKUnstructuredLoader.parse\<close>, \<open>src/unnamed/part_001\<close>, lines 487-548)\<close>

text \<open>
  The loop that infers cell types when the file gave none. \<open>index\<close> moves by
  \<open>nPts + 1\<close>, whatever \<open>nPts\<close> is, so it is a number, not an array position, and the
  read \<open>cellDataRaw[index]\<close> may be \<open>undefined\<close>. Every turn pushes one type onto
  \<open>cellTypes\<close>, and an array holds at most \<open>2 ^ 32 - 1\<close> entries: \<open>push\<close> on a full array
  throws \<open>RangeError: Invalid array length\<close>. The loop therefore always ends: it leaves
  through its guard, or, where the position does not get past the end of the buffer,
  it throws once the array is full. (Arrays are lists here; the bound on their length
  is written out in this loop, the one whose end depends on it.)
\<close>

definition infer_type :: "jsnum \<Rightarrow> jsnum" where
  "infer_type nPts =
     (if nPts = Num 1 then Num 1
      else if nPts = Num 2 then Num 3
      else if nPts = Num 3 then Num 5
      else if nPts = Num 4 then Num 9
      else Num 7)"

function infer_loop ::
  "jsnum list \<Rightarrow> jsnum \<Rightarrow> jsnum list \<Rightarrow> error + jsnum list" where
  "infer_loop cellDataRaw index cellTypes =
     (if js_lt index (Num (real (length cellDataRaw))) then
        (let nPts = js_read cellDataRaw index in
         if int (length cellTypes) \<ge> 2 ^ 32 - 1 then Inl RangeError
         else infer_loop cellDataRaw (js_add index (js_add nPts (Num 1)))
                (cellTypes @ [infer_type nPts]))
      else Inr cellTypes)"
  by pat_completeness auto
termination
  by (relation "measure (\<lambda>(cellDataRaw, index, cellTypes). 2 ^ 32 - 1 - length cellTypes)")
    auto

declare infer_loop.simps [simp del]

text \<open>
  The block \<open>if (cellTypes.length === 0 && cellDataRaw.length > 0)\<close>: it returns the
  cell count and the cell types the walk then uses.
\<close>

definition infer_types ::
  "jsnum \<Rightarrow> jsnum list \<Rightarrow> jsnum list \<Rightarrow> error + jsnum \<times> jsnum list" where
  "infer_types numCells cellTypes cellDataRaw =
     (if length cellTypes = 0 \<and> length cellDataRaw > 0 then
        (case infer_loop cellDataRaw (Num 0) cellTypes of
           Inl e \<Rightarrow> Inl e
         | Inr cellTypes' \<Rightarrow> Inr (Num (real (length cellTypes')), cellTypes'))
      else Inr (numCells, cellTypes))"

text \<open>
  The inner loop of the walk, \<open>for (j = 0; j < nPts; j++)\<close>, which pushes
  \<open>cellDataRaw[cellDataIndex++]\<close> while \<open>cellDataIndex\<close> is inside the array. The
  test on the array is in the body, not in the guard.
\<close>

partial_function (option) read_cell ::
  "jsnum list \<Rightarrow> jsnum \<Rightarrow> jsnum \<Rightarrow> nat \<Rightarrow> jsnum list \<Rightarrow> (jsnum list \<times> nat) option" where
  "read_cell cellDataRaw nPts j cellDataIndex cellIndices =
     (if js_lt j nPts then
        (if cellDataIndex < length cellDataRaw
         then read_cell cellDataRaw nPts (js_inc j) (cellDataIndex + 1)
                (cellIndices @ [cellDataRaw ! cellDataIndex])
         else read_cell cellDataRaw nPts (js_inc j) cellDataIndex cellIndices)
      else Some (cellIndices, cellDataIndex))"

declare read_cell.simps [code]

text \<open>
  The outer loop \<open>for (i = 0; i < safeNumCells; i++)\<close> with
  \<open>safeNumCells = Math.min(numCells, cellTypes.length)\<close>; the first branch is its
  \<open>break\<close>.
\<close>

function legacy_loop ::
  "jsnum \<Rightarrow> jsnum list \<Rightarrow> jsnum list \<Rightarrow> nat \<Rightarrow> nat \<Rightarrow>
   jsnum list \<times> nat list \<Rightarrow> (jsnum list \<times> nat list) option" where
  "legacy_loop numCells cellTypes cellDataRaw i cellDataIndex st =
     (if js_lt (Num (real i)) (js_min numCells (Num (real (length cellTypes)))) then
        (if cellDataIndex \<ge> length cellDataRaw then Some st
         else
           (let type = cellTypes ! i; nPts = cellDataRaw ! cellDataIndex in
            case read_cell cellDataRaw nPts (Num 0) (cellDataIndex + 1) [] of
              None \<Rightarrow> None
            | Some (cellIndices, cellDataIndex') \<Rightarrow>
                legacy_loop numCells cellTypes cellDataRaw (i + 1) cellDataIndex'
                  (emit_cell i type cellIndices st)))
      else Some st)"
  by pat_completeness auto
termination
proof (relation "measure (\<lambda>(numCells, cellTypes, cellDataRaw, i, cellDataIndex, st).
                    length cellTypes - i)", goal_cases)
  case 1
  show ?case by simp
next
  case (2 numCells cellTypes cellDataRaw i cellDataIndex st type nPts r cellIndices cellDataIndex')
  then have "i < length cellTypes"
    by (cases numCells) (auto split: if_splits)
  then show ?case by simp
qed

declare legacy_loop.simps [simp del]

definition legacy_walk ::
  "jsnum \<Rightarrow> jsnum list \<Rightarrow> jsnum list \<Rightarrow> (jsnum list \<times> nat list) option" where
  "legacy_walk numCells cellTypes cellDataRaw =
     legacy_loop numCells cellTypes cellDataRaw 0 0 ([], [])"

subsection \<open>The cells the walks hand to the triangulation\<close>

text \<open>
  The calls \<open>triangulateCell(type, cellIndices, indices)\<close> of a walk, in order: for
  each cell the walk treats, the type code and the vertex list it passes. The two
  functions follow the outer loops above, from cell \<open>i\<close> on, and leave out what the loops
  do with the result of the call; \<open>None\<close> where an inner loop does not return.
\<close>

function vtu_calls ::
  "jsnum \<Rightarrow> 'a list \<Rightarrow> jsnum list \<Rightarrow> jsnum list \<Rightarrow> nat \<Rightarrow> jsnum \<Rightarrow>
   (jsnum \<times> 'a option list) list option" where
  "vtu_calls numberOfCells connectivity offsets types i currentOffset =
     (if js_lt (Num (real i)) (safeNumCells numberOfCells offsets types) then
        (let nextOffset = offsets ! i; type = types ! i in
         case slice_loop connectivity nextOffset currentOffset [] of
           None \<Rightarrow> None
         | Some cellIndices \<Rightarrow>
             (case vtu_calls numberOfCells connectivity offsets types (i + 1) nextOffset of
                None \<Rightarrow> None
              | Some calls \<Rightarrow> Some ((type, cellIndices) # calls)))
      else Some [])"
  by pat_completeness auto
termination
proof (relation "measure (\<lambda>(numberOfCells, connectivity, offsets, types, i, currentOffset).
                    length offsets - i)", goal_cases)
  case 1
  show ?case by simp
next
  case (2 numberOfCells connectivity offsets types i currentOffset nextOffset type cellIndices)
  then have "i < length offsets"
    by (cases numberOfCells) (auto simp add: safeNumCells_def split: if_splits)
  then show ?case by simp
qed

declare vtu_calls.simps [simp del]

function legacy_calls ::
  "jsnum \<Rightarrow> jsnum list \<Rightarrow> jsnum list \<Rightarrow> nat \<Rightarrow> nat \<Rightarrow> (jsnum \<times> jsnum list) list option" where
  "legacy_calls numCells cellTypes cellDataRaw i cellDataIndex =
     (if js_lt (Num (real i)) (js_min numCells (Num (real (length cellTypes)))) then
        (if cellDataIndex \<ge> length cellDataRaw then Some []
         else
           (let type = cellTypes ! i; nPts = cellDataRaw ! cellDataIndex in
            case read_cell cellDataRaw nPts (Num 0) (cellDataIndex + 1) [] of
              None \<Rightarrow> None
            | Some (cellIndices, cellDataIndex') \<Rightarrow>
                (case legacy_calls numCells cellTypes cellDataRaw (i + 1) cellDataIndex' of
                   None \<Rightarrow> None
                 | Some calls \<Rightarrow> Some ((type, cellIndices) # calls))))
      else Some [])"
  by pat_completeness auto
termination
proof (relation "measure (\<lambda>(numCells, cellTypes, cellDataRaw, i, cellDataIndex).
                    length cellTypes - i)", goal_cases)
  case 1
  show ?case by simp
next
  case (2 numCells cellTypes cellDataRaw i cellDataIndex type nPts r cellIndices cellDataIndex')
  then have "i < length cellTypes"
    by (cases numCells) (auto split: if_splits)
  then show ?case by simp
qed

declare legacy_calls.simps [simp del]

subsection \<open>The geometry\<close>

text \<open>
  What \<open>parse\<close> hands on from here: the index of the geometry, set only when
  \<open>indices.length > 0\<close>, and the \<open>cellIdMap\<close> of its \<open>userData\<close>.
\<close>

record 'a cell_geometry =
  geom_index :: "'a list option"
  geom_cellIdMap :: "nat list"

definition build_geometry :: "'a list \<times> nat list \<Rightarrow> 'a cell_geometry" where
  "build_geometry st =
     (case st of (indices, cellIdMap) \<Rightarrow>
        \<lparr>geom_index = (if length indices > 0 then Some indices else None),
         geom_cellIdMap = cellIdMap\<rparr>)"

text \<open>
  The inference block, then the walk: \<open>None\<close> when the walk does not return,
  \<open>Some (Inl e)\<close> when the inference throws \<open>e\<close>.
\<close>

definition legacy_geometry ::
  "jsnum \<Rightarrow> jsnum list \<Rightarrow> jsnum list \<Rightarrow> (error + jsnum cell_geometry) option" where
  "legacy_geometry numCells cellTypes cellDataRaw =
     (case infer_types numCells cellTypes cellDataRaw of
        Inl e \<Rightarrow> Some (Inl e)
      | Inr (numCells', cellTypes') \<Rightarrow>
          (case legacy_walk numCells' cellTypes' cellDataRaw of
             None \<Rightarrow> None
           | Some st \<Rightarrow> Some (Inr (build_geometry st))))"

text \<open>
  In the XML loader the walk runs only \<open>if (connectivity && offsets && types)\<close>: an
  array that \<open>parseDataArray\<close> returned as \<open>null\<close> (here \<open>None\<close>) leaves \<open>indices\<close> and
  \<open>cellIdMap\<close> empty.
\<close>

definition vtu_geometry ::
  "jsnum \<Rightarrow> 'a list option \<Rightarrow> jsnum list option \<Rightarrow> jsnum list option \<Rightarrow>
   'a option cell_geometry option" where
  "vtu_geometry numberOfCells connectivity offsets types =
     (case (connectivity, offsets, types) of
        (Some c, Some os, Some ts) \<Rightarrow>
          (case vtu_walk numberOfCells c os ts of
             None \<Rightarrow> None
           | Some st \<Rightarrow> Some (build_geometry st))
      | _ \<Rightarrow> Some (build_geometry ([], [])))"

text \<open>The index buffer of a geometry; a geometry without index has no triangles.\<close>

definition index_buffer :: "'a cell_geometry \<Rightarrow> 'a list" where
  "index_buffer g = (case geom_index g of None \<Rightarrow> [] | Some indices \<Rightarrow> indices)"

text \<open>
  The calls of the two decodes: in the legacy loader those of the walk that follows
  the inference block, in the XML loader none when one of the three arrays is \<open>null\<close>.
\<close>

definition legacy_geometry_calls ::
  "jsnum \<Rightarrow> jsnum list \<Rightarrow> jsnum list \<Rightarrow> (jsnum \<times> jsnum list) list option" where
  "legacy_geometry_calls numCells cellTypes cellDataRaw =
     (case infer_types numCells cellTypes cellDataRaw of
        Inl e \<Rightarrow> None
      | Inr (numCells', cellTypes') \<Rightarrow> legacy_calls numCells' cellTypes' cellDataRaw 0 0)"

definition vtu_geometry_calls ::
  "jsnum \<Rightarrow> 'a list option \<Rightarrow> jsnum list option \<Rightarrow> jsnum list option \<Rightarrow>
   (jsnum \<times> 'a option list) list option" where
  "vtu_geometry_calls numberOfCells connectivity offsets types =
     (case (connectivity, offsets, types) of
        (Some c, Some os, Some ts) \<Rightarrow> vtu_calls numberOfCells c os ts 0 (Num 0)
      | _ \<Rightarrow> Some [])"

section \<open>The cell-ID map as the specification describes it\<close>

text \<open>
  The specification's data model: the index buffer holds the triangles of the cells in
  the order of the cells, and the cell-ID map holds, for each triangle, the 0-based
  index of the cell it comes from. For a list of cells (type code and index list),
  numbered from \<open>i\<close> on, this is the pair of buffers it describes; the triangles of one
  cell are what \<open>triangulateCell\<close> pushes for it.
\<close>

fun assemble_from :: "nat \<Rightarrow> (jsnum \<times> 'a list) list \<Rightarrow> 'a list \<times> nat list" where
  "assemble_from i [] = ([], [])"
| "assemble_from i ((type, cellIndices) # cells) =
     (case triangulateCell type cellIndices [] of (triangles, n) \<Rightarrow>
        (case assemble_from (i + 1) cells of (indices, cellIdMap) \<Rightarrow>
           (triangles @ indices, replicate n i @ cellIdMap)))"

text \<open>
  The same, triangle by triangle. The triangles of a cell are the index triples
  \<open>triangulateCell\<close> pushes for it; triangle \<open>t\<close> of a buffer is its \<open>t\<close>-th index triple;
  \<open>triangles_before cells i\<close> counts the triangles of the cells before cell \<open>i\<close>. A
  cell-ID map attributes the triangles of an index buffer to the cells of a list when
  \<^item> the buffer holds the triangles of the cells, in the order of the cells;
  \<^item> the map has one entry per triangle of the buffer;
  \<^item> entry \<open>t\<close> is the 0-based index \<open>i\<close> of the cell that produced triangle \<open>t\<close>: \<open>t\<close>
    lies among the triangles of cell \<open>i\<close>, after those of the cells before it, and
    triangle \<open>t\<close> of the buffer is the triangle of cell \<open>i\<close> at that place.
\<close>

definition cell_triangles :: "jsnum \<times> 'a list \<Rightarrow> 'a list" where
  "cell_triangles cell = fst (triangulateCell (fst cell) (snd cell) [])"

definition triangle :: "'a list \<Rightarrow> nat \<Rightarrow> 'a list" where
  "triangle indices t = take 3 (drop (3 * t) indices)"

definition triangles_before :: "(jsnum \<times> 'a list) list \<Rightarrow> nat \<Rightarrow> nat" where
  "triangles_before cells i =
     sum_list (map (\<lambda>cell. length (cell_triangles cell) div 3) (take i cells))"

definition attributed :: "(jsnum \<times> 'a list) list \<Rightarrow> 'a list \<Rightarrow> nat list \<Rightarrow> bool" where
  "attributed cells indices cellIdMap =
     (indices = concat (map cell_triangles cells)
      \<and> 3 dvd length indices
      \<and> length cellIdMap = length indices div 3
      \<and> (\<forall>t \<in> set [0..<length cellIdMap].
            cellIdMap ! t < length cells
            \<and> triangles_before cells (cellIdMap ! t) \<le> t
            \<and> t < triangles_before cells (cellIdMap ! t + 1)
            \<and> triangle indices t =
                triangle (cell_triangles (cells ! (cellIdMap ! t)))
                  (t - triangles_before cells (cellIdMap ! t))))"

section \<open>The cells of an XML piece as the specification describes them\<close>

text \<open>
  For offsets that are natural numbers, as a file's \<open>offsets\<close> array holds them: cell
  \<open>i\<close> has the type code \<open>types[i]\<close> and, as its vertex list, the connectivity entries
  at the positions from \<open>runningStart\<close> up to, not including, \<open>offsets[i]\<close>, where
  \<open>runningStart\<close> is 0 for the first cell and the previous cell's offset after it.
  Positions past the end of \<open>connectivity\<close> hold no entry. \<open>vtu_cells\<close> lists the first
  \<open>m\<close> cells.
\<close>

definition runningStart :: "nat list \<Rightarrow> nat \<Rightarrow> nat" where
  "runningStart offsets i = (if i = 0 then 0 else offsets ! (i - 1))"

definition vtu_cells ::
  "'a list \<Rightarrow> nat list \<Rightarrow> jsnum list \<Rightarrow> nat \<Rightarrow> (jsnum \<times> 'a option list) list" where
  "vtu_cells connectivity offsets types m =
     map (\<lambda>i. (types ! i,
               map Some (drop (runningStart offsets i) (take (offsets ! i) connectivity))))
       [0..<m]"

section \<open>Cell buffers of the legacy loader as the specification describes them\<close>

text \<open>
  The raw cell values of a file whose cells are complete: each cell is its point count
  followed by that many point indices.
\<close>

definition cell_values :: "jsnum list list \<Rightarrow> jsnum list" where
  "cell_values cells = concat (map (\<lambda>c. Num (real (length c)) # c) cells)"

text \<open>
  A nonnegative number: a real that is at least 0, or \<open>+Infinity\<close>. The read
  positions of the type-inference loop on a buffer: 0, and from each position inside
  the buffer the position the loop moves to. The arity prefixes the loop encounters
  are the values it reads at the positions inside the buffer.
\<close>

definition js_nonneg :: "jsnum \<Rightarrow> bool" where
  "js_nonneg x = (case x of Num r \<Rightarrow> 0 \<le> r | PosInf \<Rightarrow> True | _ \<Rightarrow> False)"

inductive_set infer_positions :: "jsnum list \<Rightarrow> jsnum set" for cellDataRaw where
  start: "Num 0 \<in> infer_positions cellDataRaw"
| step: "index \<in> infer_positions cellDataRaw \<Longrightarrow>
         js_lt index (Num (real (length cellDataRaw))) \<Longrightarrow>
         js_add index (js_add (js_read cellDataRaw index) (Num 1))
           \<in> infer_positions cellDataRaw"

section \<open>Data arrays of the XML loader (\<open>VTULoader.parseDataArray\<close>, \<open>src/unnamed/part_000\<close>)\<close>

text \<open>
  The loader reads a \<open>DataArray\<close> element through the DOM, \<open>parseInt\<close>, \<open>parseFloat\<close>
  and \<open>atob\<close>. The model starts behind these library calls: an element is the record
  of what they return for it.
  \<^item> \<open>da_format\<close>, \<open>da_type\<close>, \<open>da_name\<close>: the attributes \<open>format\<close>, \<open>type\<close> and \<open>Name\<close>,
    \<open>None\<close> for an attribute that is absent;
  \<^item> \<open>da_offset\<close>: \<open>None\<close> when the attribute \<open>offset\<close> is absent or empty, otherwise its
    \<open>parseInt\<close>, which is an integer or \<open>NaN\<close> (the inner \<open>None\<close>);
  \<^item> \<open>da_comps\<close>: the \<open>parseInt\<close> of \<open>NumberOfComponents\<close>, of \<open>'1'\<close> when it is absent;
  \<^item> \<open>da_bytes\<close>: the bytes \<open>atob\<close> returns for the trimmed text, \<open>None\<close> when \<open>atob\<close>
    throws, as it does on malformed base64;
  \<^item> \<open>da_ascii\<close>: the numbers of the typed array that the ASCII branch fills from the
    whitespace-separated tokens of the text; empty exactly when the trimmed text is.
\<close>

type_synonym byte = "8 word"

type_synonym parsed_int = "int option"

record data_array =
  da_format :: "string option"
  da_type :: "string option"
  da_name :: "string option"
  da_offset :: "parsed_int option"
  da_comps :: parsed_int
  da_bytes :: "byte list option"
  da_ascii :: "jsnum list"

text \<open>
  \<open>appendedDataMap\<close>: the decoded (base64) or original (raw) bytes, \<open>None\<close> for \<open>null\<close>;
  the position after the marker \<open>_\<close>; the encoding.
\<close>

record appended_map =
  am_buffer :: "byte list option"
  am_offsetStart :: nat
  am_encoding :: string

text \<open>\<open>const headerSize = headerType === 'UInt64' ? 8 : 4;\<close>\<close>

definition headerSize_of :: "string \<Rightarrow> nat" where
  "headerSize_of headerType = (if headerType = ''UInt64'' then 8 else 4)"

text \<open>
  \<open>view.getUint32(byteOffset, true)\<close>: the little-endian value of four bytes. A
  \<open>DataView\<close> throws a \<open>RangeError\<close> for an offset that is negative or leaves fewer than
  four bytes.
\<close>

definition getUint32 :: "byte list \<Rightarrow> int \<Rightarrow> error + nat" where
  "getUint32 buffer byteOffset =
     (if byteOffset < 0 \<or> nat byteOffset + 4 > length buffer then Inl RangeError
      else
        (let p = nat byteOffset in
         Inr (unat (buffer ! p) + 256 * unat (buffer ! (p + 1))
              + 65536 * unat (buffer ! (p + 2)) + 16777216 * unat (buffer ! (p + 3)))))"

text \<open>The block that reads the size header: two 32-bit words when \<open>headerSize === 8\<close>.\<close>

definition read_byteSize :: "byte list \<Rightarrow> nat \<Rightarrow> int \<Rightarrow> error + nat" where
  "read_byteSize buffer headerSize start =
     (if headerSize = 8 then
        (case getUint32 buffer start of
           Inl e \<Rightarrow> Inl e
         | Inr low \<Rightarrow>
             (case getUint32 buffer (start + 4) of
                Inl e \<Rightarrow> Inl e
              | Inr high \<Rightarrow> Inr (low + high * 4294967296)))
      else getUint32 buffer start)"

text \<open>
  \<open>parseDataArray\<close>. Its result is \<open>Inl\<close> of what it throws, or \<open>Inr\<close> of what it
  returns: \<open>None\<close> for \<open>null\<close>, else the numbers of the typed array. \<open>createTypedArray\<close>
  reinterprets bytes as IEEE floats or integers of the declared type; this is not
  modelled and stands as a parameter. It does not throw: its body is a \<open>try\<close> whose
  handler returns a zero-filled array. Only the branch for \<open>format === 'appended'\<close> has
  no \<open>try\<close> around it.
\<close>

definition parseDataArray ::
  "(string option \<Rightarrow> byte list \<Rightarrow> jsnum list) \<Rightarrow> appended_map \<Rightarrow> nat \<Rightarrow> data_array \<Rightarrow>
   error + jsnum list option" where
  "parseDataArray createTypedArray appendedMap headerSize element =
     (if da_format element = Some ''appended'' then
        (case (da_offset element, am_buffer appendedMap) of
           (Some (Some offset), Some buffer) \<Rightarrow>
             (let start = (if am_encoding appendedMap = ''raw''
                           then int (am_offsetStart appendedMap) + offset else offset)
              in
                if start \<ge> int (length buffer) then Inr None
                else if start + int headerSize > int (length buffer) then Inr None
                else
                  (case read_byteSize buffer headerSize start of
                     Inl e \<Rightarrow> Inl e
                   | Inr byteSize \<Rightarrow>
                       (let dataStart = nat start + headerSize in
                        if dataStart + byteSize > length buffer then Inr None
                        else Inr (Some (createTypedArray (da_type element)
                                          (take byteSize (drop dataStart buffer)))))))
         | _ \<Rightarrow> Inr None)
      else if da_format element = Some ''binary'' then
        (case da_bytes element of
           None \<Rightarrow> Inr None
         | Some bytes \<Rightarrow>
             if length bytes \<le> headerSize then Inr None
             else Inr (Some (createTypedArray (da_type element) (drop headerSize bytes))))
      else
        (if da_ascii element = [] then Inr None else Inr (Some (da_ascii element))))"

section \<open>Scalar fields\<close>

record scalar_field =
  sf_name :: string
  sf_min :: jsnum
  sf_max :: jsnum
  sf_data :: "jsnum list"

text \<open>
  The loop \<open>for (const v of data) { if (v < min) min = v; if (v > max) max = v; }\<close>,
  which all three places that build a field share; it starts from \<open>Infinity\<close> and
  \<open>-Infinity\<close>.
\<close>

fun minmax_loop :: "jsnum list \<Rightarrow> jsnum \<times> jsnum \<Rightarrow> jsnum \<times> jsnum" where
  "minmax_loop [] (min_v, max_v) = (min_v, max_v)"
| "minmax_loop (v # data) (min_v, max_v) =
     minmax_loop data (if js_lt v min_v then v else min_v, if js_lt max_v v then v else max_v)"

definition make_field :: "string \<Rightarrow> jsnum list \<Rightarrow> scalar_field" where
  "make_field name data =
     (case minmax_loop data (PosInf, NegInf) of (min_v, max_v) \<Rightarrow>
        \<lparr>sf_name = name, sf_min = min_v, sf_max = max_v, sf_data = data\<rparr>)"

text \<open>
  The body of \<open>dataArrays.forEach\<close> in the \<open>PointData\<close> and \<open>CellData\<close> blocks of the XML
  loader (the two are the same text), for one element, and the loop over the elements.
  What \<open>parseDataArray\<close> throws leaves the loop and \<open>parse\<close>.
\<close>

definition field_name :: "data_array \<Rightarrow> string" where
  "field_name da = (case da_name da of None \<Rightarrow> ''Unknown'' | Some n \<Rightarrow> if n = [] then ''Unknown'' else n)"

definition vtu_field ::
  "(string option \<Rightarrow> byte list \<Rightarrow> jsnum list) \<Rightarrow> appended_map \<Rightarrow> nat \<Rightarrow> data_array \<Rightarrow>
   scalar_field list \<Rightarrow> error + scalar_field list" where
  "vtu_field createTypedArray appendedMap headerSize da dataFields =
     (if da_comps da = Some 1 then
        (case parseDataArray createTypedArray appendedMap headerSize da of
           Inl e \<Rightarrow> Inl e
         | Inr None \<Rightarrow> Inr dataFields
         | Inr (Some arr) \<Rightarrow>
             (let data = arr in
              if length data > 0 then Inr (dataFields @ [make_field (field_name da) data])
              else Inr dataFields))
      else Inr dataFields)"

fun vtu_fields ::
  "(string option \<Rightarrow> byte list \<Rightarrow> jsnum list) \<Rightarrow> appended_map \<Rightarrow> nat \<Rightarrow> data_array list \<Rightarrow>
   scalar_field list \<Rightarrow> error + scalar_field list" where
  "vtu_fields createTypedArray appendedMap headerSize [] dataFields = Inr dataFields"
| "vtu_fields createTypedArray appendedMap headerSize (da # dataArrays) dataFields =
     (case vtu_field createTypedArray appendedMap headerSize da dataFields of
        Inl e \<Rightarrow> Inl e
      | Inr dataFields' \<Rightarrow> vtu_fields createTypedArray appendedMap headerSize dataArrays dataFields')"

section \<open>The XML loader's \<open>parse\<close>, from the \<open>Piece\<close> element on\<close>

text \<open>
  A piece as \<open>parse\<close> queries it: the \<open>parseInt\<close> of \<open>NumberOfCells\<close> (of \<open>'0'\<close> when the
  attribute is absent), the \<open>DataArray\<close> of \<open>Points\<close>, the three arrays of \<open>Cells\<close> by
  name, and the arrays of \<open>PointData\<close> and \<open>CellData\<close>; \<open>None\<close> is an element that
  \<open>querySelector\<close> does not find. (Before the piece, \<open>parse\<close> throws for a document
  without \<open>VTKFile\<close>, \<open>UnstructuredGrid\<close> or \<open>Piece\<close>, and builds \<open>appendedDataMap\<close>.)
\<close>

record cells_element =
  ce_connectivity :: "data_array option"
  ce_offsets :: "data_array option"
  ce_types :: "data_array option"

record vtu_piece =
  pc_numberOfCells :: jsnum
  pc_points :: "data_array option"
  pc_cells :: "cells_element option"
  pc_pointData :: "data_array list option"
  pc_cellData :: "data_array list option"

text \<open>
  What \<open>parse\<close> returns: the position attribute, the index (absent without triangles),
  and the \<open>userData\<close> with the two field lists and the cell-ID map.
\<close>

record vtu_mesh =
  vm_position :: "jsnum list"
  vm_index :: "jsnum option list option"
  vm_pointData :: "scalar_field list"
  vm_cellData :: "scalar_field list"
  vm_cellIdMap :: "nat list"

text \<open>
  The result is \<open>None\<close> when the cell walk does not return, \<open>Some (Inl e)\<close> when \<open>parse\<close>
  throws \<open>e\<close>, and \<open>Some (Inr mesh)\<close> when it returns \<open>mesh\<close>.
\<close>

definition vtu_parse ::
  "(string option \<Rightarrow> byte list \<Rightarrow> jsnum list) \<Rightarrow> appended_map \<Rightarrow> nat \<Rightarrow> vtu_piece \<Rightarrow>
   (error + vtu_mesh) option" where
  "vtu_parse createTypedArray appendedMap headerSize piece =
     (let parseArray = parseDataArray createTypedArray appendedMap headerSize;
          parseFields = vtu_fields createTypedArray appendedMap headerSize
      in
      case pc_points piece of
        None \<Rightarrow> Some (Inl (Error ''Missing Points DataArray''))
      | Some pointsElement \<Rightarrow>
      (case parseArray pointsElement of
        Inl e \<Rightarrow> Some (Inl e)
      | Inr None \<Rightarrow> Some (Inl (Error ''Failed to parse Points data (empty or invalid)''))
      | Inr (Some pointsArray) \<Rightarrow>
      (case pc_cells piece of
        None \<Rightarrow> Some (Inl (Error ''Missing Cells''))
      | Some cellsElement \<Rightarrow>
      (case (ce_connectivity cellsElement, ce_offsets cellsElement, ce_types cellsElement) of
        (Some connectivityEl, Some offsetsEl, Some typesEl) \<Rightarrow>
          (case parseArray connectivityEl of
            Inl e \<Rightarrow> Some (Inl e)
          | Inr connectivity \<Rightarrow>
          (case parseArray offsetsEl of
            Inl e \<Rightarrow> Some (Inl e)
          | Inr offsets \<Rightarrow>
          (case parseArray typesEl of
            Inl e \<Rightarrow> Some (Inl e)
          | Inr types \<Rightarrow>
          (case vtu_geometry (pc_numberOfCells piece) connectivity offsets types of
            None \<Rightarrow> None
          | Some g \<Rightarrow>
          (case parseFields (case pc_pointData piece of None \<Rightarrow> [] | Some das \<Rightarrow> das) [] of
            Inl e \<Rightarrow> Some (Inl e)
          | Inr pointDataFields \<Rightarrow>
          (case parseFields (case pc_cellData piece of None \<Rightarrow> [] | Some das \<Rightarrow> das) [] of
            Inl e \<Rightarrow> Some (Inl e)
          | Inr cellDataFields \<Rightarrow>
              Some (Inr \<lparr>vm_position = pointsArray, vm_index = geom_index g,
                          vm_pointData = pointDataFields, vm_cellData = cellDataFields,
                          vm_cellIdMap = geom_cellIdMap g\<rparr>)))))))
      | _ \<Rightarrow>
          Some (Inl (Error ''Incomplete Cell data (connectivity, offsets, or types missing)''))))))"

section \<open>The legacy loader's \<open>parse\<close>, line by line\<close>

text \<open>
  \<open>parse\<close> splits the text into lines, skips the blank ones and those that start with
  \<open>#\<close>, and tests the first token of a line, in lower case, against its keywords. A
  line is modelled by what these tests, \<open>parseInt\<close> and \<open>parseNumbers\<close> make of it:
  \<^item> a keyword line, with the \<open>parseInt\<close> of its count where \<open>parse\<close> takes one (an
    integer, or \<open>NaN\<close>, here \<open>None\<close>), the token after \<open>DATASET\<close> (\<open>None\<close> if there is
    none) and, for \<open>SCALARS\<close>, the name and the \<open>parseInt\<close> of the fourth token, of
    \<open>'1'\<close> when there is none;
  \<^item> any other line, as \<open>Values\<close> of the numbers \<open>parseNumbers\<close> returns for it: the
    \<open>parseFloat\<close> of each token, without the \<open>NaN\<close>s. A line of words that are no
    keywords is \<open>Values []\<close>.
\<close>

datatype line =
  Dataset "string option"
| Points parsed_int
| Cells parsed_int
| Polygons
| Lines
| TriangleStrips
| CellTypesLine
| PointData
| CellData
| Scalars string parsed_int
| LookupTable
| Values "jsnum list"

datatype section_name =
  NONE | POINTS | CELLS | CELL_TYPES | POINT_DATA | CELL_DATA | POLYGONS | LINES
  | TRIANGLE_STRIPS

datatype subSection = SUB_NONE | SCALARS

record current_scalar =
  cs_name :: string
  cs_components :: parsed_int
  cs_data :: "jsnum list"

text \<open>The variables of \<open>parse\<close>. An entry of \<open>points\<close> that was never written is a hole.\<close>

record legacy_state =
  ls_section :: section_name
  ls_subSection :: subSection
  ls_numPoints :: parsed_int
  ls_numCells :: parsed_int
  ls_points :: "jsnum option list"
  ls_pointCount :: nat
  ls_cellDataRaw :: "jsnum list"
  ls_cellTypes :: "jsnum list"
  ls_currentScalar :: "current_scalar option"
  ls_pointDataFields :: "scalar_field list"
  ls_cellDataFields :: "scalar_field list"

definition initial_state :: legacy_state where
  "initial_state =
     \<lparr>ls_section = NONE, ls_subSection = SUB_NONE, ls_numPoints = Some 0, ls_numCells = Some 0,
      ls_points = [], ls_pointCount = 0, ls_cellDataRaw = [], ls_cellTypes = [],
      ls_currentScalar = None, ls_pointDataFields = [], ls_cellDataFields = []\<rparr>"

text \<open>
  \<open>for (let v of vals) { if (pointCount < points.length) points[pointCount++] = v; }\<close>
\<close>

fun store_points :: "jsnum list \<Rightarrow> legacy_state \<Rightarrow> legacy_state" where
  "store_points [] s = s"
| "store_points (v # vals) s =
     store_points vals
       (if ls_pointCount s < length (ls_points s)
        then s\<lparr>ls_points := (ls_points s)[ls_pointCount s := Some v],
               ls_pointCount := ls_pointCount s + 1\<rparr>
        else s)"

text \<open>
  The branch for a line of values inside \<open>POINT_DATA\<close> or \<open>CELL_DATA\<close> after
  \<open>SCALARS\<close>: the values join the current scalar, and when
  \<open>data.length >= targetCount * components\<close> the field is built and pushed. A \<open>NaN\<close> on
  the right makes the comparison false.
\<close>

definition target_count :: "legacy_state \<Rightarrow> parsed_int" where
  "target_count s =
     (if ls_section s = POINT_DATA then ls_numPoints s
      else if length (ls_cellTypes s) \<noteq> 0 then Some (int (length (ls_cellTypes s)))
      else ls_numCells s)"

definition scalar_values :: "jsnum list \<Rightarrow> current_scalar \<Rightarrow> legacy_state \<Rightarrow> legacy_state" where
  "scalar_values vals currentScalar s =
     (let data = cs_data currentScalar @ vals;
          finished =
            (case (target_count s, cs_components currentScalar) of
               (Some targetCount, Some components) \<Rightarrow>
                 int (length data) \<ge> targetCount * components
             | _ \<Rightarrow> False)
      in
      if finished then
        (let field = make_field (cs_name currentScalar) data in
         (if ls_section s = POINT_DATA
          then s\<lparr>ls_pointDataFields := ls_pointDataFields s @ [field]\<rparr>
          else s\<lparr>ls_cellDataFields := ls_cellDataFields s @ [field]\<rparr>)
         \<lparr>ls_subSection := SUB_NONE, ls_currentScalar := None\<rparr>)
      else s\<lparr>ls_currentScalar := Some (currentScalar\<lparr>cs_data := data\<rparr>)\<rparr>)"

text \<open>
  One turn of the loop over the lines. \<open>parts[1].toLowerCase()\<close> throws a \<open>TypeError\<close>
  on a \<open>DATASET\<close> line without a second token, and \<open>new Array(numPoints * 3)\<close> throws a
  \<open>RangeError\<close> unless the length is an integer from 0 to \<open>2 ^ 32 - 1\<close>.
\<close>

fun legacy_line :: "line \<Rightarrow> legacy_state \<Rightarrow> error + legacy_state" where
  "legacy_line (Dataset t) s = (case t of None \<Rightarrow> Inl TypeError | Some _ \<Rightarrow> Inr s)"
| "legacy_line (Points n) s =
     (case n of
        None \<Rightarrow> Inl RangeError
      | Some k \<Rightarrow>
          if k * 3 < 0 \<or> k * 3 > 2 ^ 32 - 1 then Inl RangeError
          else Inr (s\<lparr>ls_section := POINTS, ls_numPoints := n,
                     ls_points := replicate (nat (k * 3)) None, ls_pointCount := 0\<rparr>))"
| "legacy_line (Cells n) s = Inr (s\<lparr>ls_section := CELLS, ls_numCells := n\<rparr>)"
| "legacy_line Polygons s = Inr (s\<lparr>ls_section := POLYGONS\<rparr>)"
| "legacy_line Lines s = Inr (s\<lparr>ls_section := LINES\<rparr>)"
| "legacy_line TriangleStrips s = Inr (s\<lparr>ls_section := TRIANGLE_STRIPS\<rparr>)"
| "legacy_line CellTypesLine s = Inr (s\<lparr>ls_section := CELL_TYPES\<rparr>)"
| "legacy_line PointData s = Inr (s\<lparr>ls_section := POINT_DATA, ls_subSection := SUB_NONE\<rparr>)"
| "legacy_line CellData s = Inr (s\<lparr>ls_section := CELL_DATA, ls_subSection := SUB_NONE\<rparr>)"
| "legacy_line (Scalars name components) s =
     Inr (s\<lparr>ls_subSection := SCALARS,
             ls_currentScalar :=
               Some \<lparr>cs_name = name, cs_components = components, cs_data = []\<rparr>\<rparr>)"
| "legacy_line LookupTable s = Inr s"
| "legacy_line (Values vals) s =
     (if ls_section s = POINTS then Inr (store_points vals s)
      else if ls_section s = CELLS \<or> ls_section s = POLYGONS \<or> ls_section s = LINES
              \<or> ls_section s = TRIANGLE_STRIPS
        then Inr (s\<lparr>ls_cellDataRaw := ls_cellDataRaw s @ vals\<rparr>)
      else if ls_section s = CELL_TYPES
        then Inr (s\<lparr>ls_cellTypes := ls_cellTypes s @ vals\<rparr>)
      else if (ls_section s = POINT_DATA \<or> ls_section s = CELL_DATA)
              \<and> ls_subSection s = SCALARS
        then (case ls_currentScalar s of
                None \<Rightarrow> Inr s
              | Some currentScalar \<Rightarrow> Inr (scalar_values vals currentScalar s))
      else Inr s)"

fun legacy_lines :: "line list \<Rightarrow> legacy_state \<Rightarrow> error + legacy_state" where
  "legacy_lines [] s = Inr s"
| "legacy_lines (l # ls) s =
     (case legacy_line l s of Inl e \<Rightarrow> Inl e | Inr s' \<Rightarrow> legacy_lines ls s')"

text \<open>
  What \<open>parse\<close> returns: the data it hands to the geometry (the position attribute, the
  index when there is one, the fields and the cell-ID map of \<open>userData\<close>); \<open>None\<close> when
  the cell walk does not return, \<open>Some (Inl e)\<close> when \<open>parse\<close> throws \<open>e\<close>. The calls
  into the rendering library that follow (\<open>computeVertexNormals\<close>,
  \<open>computeBoundingSphere\<close>, \<open>computeBoundingBox\<close>) are outside this development, and so
  is a \<open>SCALARS\<close> line without a name.
\<close>

record legacy_mesh =
  lm_position :: "jsnum option list"
  lm_index :: "jsnum list option"
  lm_pointData :: "scalar_field list"
  lm_cellData :: "scalar_field list"
  lm_cellIdMap :: "nat list"

definition num_of :: "parsed_int \<Rightarrow> jsnum" where
  "num_of n = (case n of None \<Rightarrow> NaN | Some k \<Rightarrow> Num (real_of_int k))"

definition legacy_parse :: "line list \<Rightarrow> (error + legacy_mesh) option" where
  "legacy_parse file =
     (case legacy_lines file initial_state of
        Inl e \<Rightarrow> Some (Inl e)
      | Inr s \<Rightarrow>
          (case legacy_geometry (num_of (ls_numCells s)) (ls_cellTypes s) (ls_cellDataRaw s) of
             None \<Rightarrow> None
           | Some (Inl e) \<Rightarrow> Some (Inl e)
           | Some (Inr g) \<Rightarrow>
               Some (Inr \<lparr>lm_position = ls_points s, lm_index = geom_index g,
                           lm_pointData = ls_pointDataFields s,
                           lm_cellData = ls_cellDataFields s,
                           lm_cellIdMap = geom_cellIdMap g\<rparr>)))"

text \<open>The index buffer and the cell-ID map of a decoded mesh, as a geometry.\<close>

definition vtu_cell_geometry :: "vtu_mesh \<Rightarrow> jsnum option cell_geometry" where
  "vtu_cell_geometry mesh = \<lparr>geom_index = vm_index mesh, geom_cellIdMap = vm_cellIdMap mesh\<rparr>"

definition legacy_cell_geometry :: "legacy_mesh \<Rightarrow> jsnum cell_geometry" where
  "legacy_cell_geometry mesh =
     \<lparr>geom_index = lm_index mesh, geom_cellIdMap = lm_cellIdMap mesh\<rparr>"

text \<open>
  The calls of \<open>triangulateCell\<close> that the two \<open>parse\<close> methods make: the XML loader
  walks the three arrays \<open>parseDataArray\<close> returns for the elements of \<open>Cells\<close>, the
  legacy loader the buffers its line loop has filled.
\<close>

definition vtu_parse_calls ::
  "(string option \<Rightarrow> byte list \<Rightarrow> jsnum list) \<Rightarrow> appended_map \<Rightarrow> nat \<Rightarrow> vtu_piece \<Rightarrow>
   (jsnum \<times> jsnum option list) list option" where
  "vtu_parse_calls createTypedArray appendedMap headerSize piece =
     (let parseArray = parseDataArray createTypedArray appendedMap headerSize in
      case pc_cells piece of
        None \<Rightarrow> None
      | Some cellsElement \<Rightarrow>
      (case (ce_connectivity cellsElement, ce_offsets cellsElement, ce_types cellsElement) of
        (Some connectivityEl, Some offsetsEl, Some typesEl) \<Rightarrow>
          (case (parseArray connectivityEl, parseArray offsetsEl, parseArray typesEl) of
             (Inr connectivity, Inr offsets, Inr types) \<Rightarrow>
               vtu_geometry_calls (pc_numberOfCells piece) connectivity offsets types
           | _ \<Rightarrow> None)
      | _ \<Rightarrow> None))"

definition legacy_parse_calls :: "line list \<Rightarrow> (jsnum \<times> jsnum list) list option" where
  "legacy_parse_calls file =
     (case legacy_lines file initial_state of
        Inl e \<Rightarrow> None
      | Inr s \<Rightarrow>
          legacy_geometry_calls (num_of (ls_numCells s)) (ls_cellTypes s) (ls_cellDataRaw s))"

section \<open>Byte sequences as the specification reads them\<close>

text \<open>The little-endian value of a sequence of bytes: the first byte counts least.\<close>

fun le_nat :: "byte list \<Rightarrow> nat" where
  "le_nat [] = 0"
| "le_nat (b # bs) = unat b + 256 * le_nat bs"

text \<open>
  \<open>createTypedArray\<close> for the type \<open>UInt8\<close>, \<open>new Uint8Array(buffer)\<close>: each byte is a
  number. It is the function the examples below pass for \<open>createTypedArray\<close>.
\<close>

definition uint8_array :: "string option \<Rightarrow> byte list \<Rightarrow> jsnum list" where
  "uint8_array type bytes = map (\<lambda>b. Num (real (unat b))) bytes"

section \<open>Scalar fields as the specification describes them\<close>

text \<open>
  \<open>min\<close> and \<open>max\<close> are the true extrema of \<open>data\<close>: both are values of the data, no
  value is less than \<open>min\<close> and none is greater than \<open>max\<close>. A field is sound when this
  holds of it, provided its data is not empty and holds no \<open>NaN\<close>, which no comparison
  orders.
\<close>

definition true_extrema :: "scalar_field \<Rightarrow> bool" where
  "true_extrema f =
     (sf_min f \<in> set (sf_data f) \<and> sf_max f \<in> set (sf_data f)
      \<and> (\<forall>v \<in> set (sf_data f). \<not> js_lt v (sf_min f) \<and> \<not> js_lt (sf_max f) v))"

definition sound_field :: "scalar_field \<Rightarrow> bool" where
  "sound_field f = (sf_data f \<noteq> [] \<and> NaN \<notin> set (sf_data f) \<longrightarrow> true_extrema f)"


section \<open>Example inputs\<close>

text \<open>
  Elements of a small XML file: arrays in the three formats, a piece with three points
  and one triangle whose point data is left open, and an appended block of eight bytes
  (a 4-byte header that announces four bytes, and the four bytes).
\<close>

definition ascii_array :: "string \<Rightarrow> string \<Rightarrow> jsnum list \<Rightarrow> data_array" where
  "ascii_array type name values =
     \<lparr>da_format = Some ''ascii'', da_type = Some type, da_name = Some name, da_offset = None,
      da_comps = Some 1, da_bytes = None, da_ascii = values\<rparr>"

definition appended_array :: "string \<Rightarrow> string \<Rightarrow> int \<Rightarrow> data_array" where
  "appended_array type name offset =
     \<lparr>da_format = Some ''appended'', da_type = Some type, da_name = Some name,
      da_offset = Some (Some offset), da_comps = Some 1, da_bytes = None, da_ascii = []\<rparr>"

definition binary_array :: "string \<Rightarrow> string \<Rightarrow> byte list option \<Rightarrow> data_array" where
  "binary_array type name bytes =
     \<lparr>da_format = Some ''binary'', da_type = Some type, da_name = Some name,
      da_offset = None, da_comps = Some 1, da_bytes = bytes, da_ascii = []\<rparr>"

definition example_piece :: "data_array list \<Rightarrow> vtu_piece" where
  "example_piece pointData =
     \<lparr>pc_numberOfCells = Num 1,
      pc_points = Some (ascii_array ''Float32'' ''Points''
                          [Num 0, Num 0, Num 0, Num 1, Num 0, Num 0, Num 0, Num 1, Num 0]),
      pc_cells = Some \<lparr>ce_connectivity = Some (ascii_array ''Int32'' ''connectivity''
                                                  [Num 0, Num 1, Num 2]),
                        ce_offsets = Some (ascii_array ''Int32'' ''offsets'' [Num 3]),
                        ce_types = Some (ascii_array ''UInt8'' ''types'' [Num 5])\<rparr>,
      pc_pointData = Some pointData,
      pc_cellData = None\<rparr>"

text \<open>
  The same three points with the connectivity \<open>0 1 2\<close>, and the declared cell count,
  the \<open>offsets\<close> array and the \<open>types\<close> array left open.
\<close>

definition example_cells :: "jsnum \<Rightarrow> data_array \<Rightarrow> data_array \<Rightarrow> vtu_piece" where
  "example_cells numberOfCells offsets types =
     \<lparr>pc_numberOfCells = numberOfCells,
      pc_points = Some (ascii_array ''Float32'' ''Points''
                          [Num 0, Num 0, Num 0, Num 1, Num 0, Num 0, Num 0, Num 1, Num 0]),
      pc_cells = Some \<lparr>ce_connectivity = Some (ascii_array ''Int32'' ''connectivity''
                                                  [Num 0, Num 1, Num 2]),
                        ce_offsets = Some offsets,
                        ce_types = Some types\<rparr>,
      pc_pointData = None,
      pc_cellData = None\<rparr>"

definition example_appended :: appended_map where
  "example_appended =
     \<lparr>am_buffer = Some [4, 0, 0, 0, 1, 2, 3, 4], am_offsetStart = 0, am_encoding = ''base64''\<rparr>"


section \<open>Properties of the triangulation engine\<close>

lemma fan_loop_append:
  "fan_loop c k indices =
     indices @ concat (map (\<lambda>j. [c ! 0, c ! j, c ! (j + 1)]) [k..<length c - 1])"
proof (induction c k indices rule: fan_loop.induct)
  case (1 c k indices)
  show ?case
  proof (cases "k < length c - 1")
    case True
    then have "[k..<length c - 1] = k # [k + 1..<length c - 1]"
      by (simp add: upt_conv_Cons)
    with True 1 show ?thesis by (subst fan_loop.simps) simp
  next
    case False
    then show ?thesis by (subst fan_loop.simps) simp
  qed
qed

lemma length_fan_triples:
  "length (concat (map (\<lambda>j. map ((!) c) [0, j, j + 1]) js)) = 3 * length js"
  "length (concat (map (\<lambda>j. [c ! 0, c ! j, c ! Suc j]) js)) = 3 * length js"
  by (induction js) simp_all

lemma fan_loop_triples:
  "fan_loop c k indices =
     indices @ concat (map (\<lambda>j. map ((!) c) [0, j, j + 1]) [k..<length c - 1])"
  by (simp add: fan_loop_append)

lemma push_faces_hex:
  "push_faces c hexFaces indices =
     indices @ map ((!) c) [0, 1, 5, 0, 5, 4, 1, 2, 6, 1, 6, 5, 2, 3, 7, 2, 7, 6,
                            3, 0, 4, 3, 4, 7, 0, 3, 2, 0, 2, 1, 4, 5, 6, 4, 6, 7]"
  by (simp add: push_faces_def push_quad_def hexFaces_def)

lemma push_faces_wedge:
  "push_faces c wedgeQuads indices =
     indices @ map ((!) c) [0, 1, 4, 0, 4, 3, 1, 2, 5, 1, 5, 4, 2, 0, 3, 2, 3, 5]"
  by (simp add: push_faces_def push_quad_def wedgeQuads_def)

text \<open>What a call returns, one lemma per case of the \<open>switch\<close>.\<close>

lemma triangulateCell_5:
  "triangulateCell (Num 5) c out =
     (if 3 \<le> length c then (out @ map ((!) c) [0, 1, 2], 1) else (out, 0))"
  by (simp add: triangulateCell_def Let_def)

lemma triangulateCell_7:
  "triangulateCell (Num 7) c out =
     (if 3 \<le> length c
      then (out @ concat (map (\<lambda>k. map ((!) c) [0, k, k + 1]) [1..<length c - 1]),
            length c - 2)
      else (out, 0))"
  by (auto simp add: triangulateCell_def Let_def fan_loop_triples length_fan_triples)

lemma triangulateCell_9:
  "triangulateCell (Num 9) c out =
     (if 4 \<le> length c then (out @ map ((!) c) [0, 1, 2, 0, 2, 3], 2) else (out, 0))"
  by (simp add: triangulateCell_def Let_def)

lemma triangulateCell_10:
  "triangulateCell (Num 10) c out =
     (if 4 \<le> length c
      then (out @ map ((!) c) [0, 1, 2, 0, 2, 3, 0, 3, 1, 1, 3, 2], 4)
      else (out, 0))"
  by (simp add: triangulateCell_def Let_def)

lemma triangulateCell_12:
  "triangulateCell (Num 12) c out =
     (if 8 \<le> length c
      then (out @ map ((!) c) [0, 1, 5, 0, 5, 4, 1, 2, 6, 1, 6, 5, 2, 3, 7, 2, 7, 6,
                               3, 0, 4, 3, 4, 7, 0, 3, 2, 0, 2, 1, 4, 5, 6, 4, 6, 7], 12)
      else (out, 0))"
  by (simp add: triangulateCell_def Let_def push_faces_hex)

lemma triangulateCell_13:
  "triangulateCell (Num 13) c out =
     (if 6 \<le> length c
      then (out @ map ((!) c) [0, 1, 2, 3, 5, 4, 0, 1, 4, 0, 4, 3, 1, 2, 5, 1, 5, 4,
                               2, 0, 3, 2, 3, 5], 8)
      else (out, 0))"
  by (simp add: triangulateCell_def Let_def push_faces_wedge)

lemma triangulateCell_14:
  "triangulateCell (Num 14) c out =
     (if 5 \<le> length c
      then (out @ map ((!) c) [0, 1, 2, 0, 2, 3, 0, 1, 4, 1, 2, 4, 2, 3, 4, 3, 0, 4], 6)
      else (out, 0))"
  by (simp add: triangulateCell_def Let_def)

lemma triangulateCell_other:
  "t \<notin> Num ` {5, 7, 9, 10, 12, 13, 14} \<Longrightarrow> triangulateCell t c out = (out, 0)"
  by (simp add: triangulateCell_def Let_def)

lemmas triangulateCell_known =
  triangulateCell_5 triangulateCell_7 triangulateCell_9 triangulateCell_10
  triangulateCell_12 triangulateCell_13 triangulateCell_14

text \<open>
  The buffer a call returns is the buffer it was given followed by what the same call
  pushes onto an empty buffer, and what it pushes is three entries per triangle counted.
\<close>

lemma triangulateCell_append:
  "triangulateCell t c indices =
     (indices @ fst (triangulateCell t c []), snd (triangulateCell t c []))"
proof (cases "t \<in> Num ` {5, 7, 9, 10, 12, 13, 14}")
  case True
  then consider "t = Num 5" | "t = Num 7" | "t = Num 9" | "t = Num 10" | "t = Num 12"
    | "t = Num 13" | "t = Num 14"
    by auto
  then show ?thesis
    by cases (auto simp add: triangulateCell_known)
next
  case False
  then show ?thesis by (simp add: triangulateCell_other)
qed

lemma triangulateCell_grows_by_triples:
  "length (fst (triangulateCell t c [])) = 3 * snd (triangulateCell t c [])"
proof (cases "t \<in> Num ` {5, 7, 9, 10, 12, 13, 14}")
  case True
  then consider "t = Num 5" | "t = Num 7" | "t = Num 9" | "t = Num 10" | "t = Num 12"
    | "t = Num 13" | "t = Num 14"
    by auto
  then show ?thesis
    by cases (auto simp add: triangulateCell_known length_fan_triples)
next
  case False
  then show ?thesis by (simp add: triangulateCell_other)
qed

text \<open>
  C2. For each cell type of the table and an index list of at least the type's minimum
  arity, \<open>triangulateCell\<close> returns the given buffer followed by exactly the triples of
  the type's rule (written as positions in the cell's own index list), and the number
  of triangles: triangle 1, polygon of n vertices the n - 2 fan triples (0, k, k + 1),
  quad 2, tetrahedron 4, hexahedron 12, wedge 8, pyramid 6. The index list is a value
  the function only reads.
\<close>

theorem triangulateCell_rules:
  "(3 \<le> length c \<longrightarrow>
      triangulateCell (Num 5) c out = (out @ map ((!) c) [0, 1, 2], 1))
   \<and> (3 \<le> length c \<longrightarrow>
      triangulateCell (Num 7) c out =
        (out @ concat (map (\<lambda>k. map ((!) c) [0, k, k + 1]) [1..<length c - 1]),
         length c - 2))
   \<and> (4 \<le> length c \<longrightarrow>
      triangulateCell (Num 9) c out = (out @ map ((!) c) [0, 1, 2, 0, 2, 3], 2))
   \<and> (4 \<le> length c \<longrightarrow>
      triangulateCell (Num 10) c out =
        (out @ map ((!) c) [0, 1, 2, 0, 2, 3, 0, 3, 1, 1, 3, 2], 4))
   \<and> (8 \<le> length c \<longrightarrow>
      triangulateCell (Num 12) c out =
        (out @ map ((!) c) [0, 1, 5, 0, 5, 4, 1, 2, 6, 1, 6, 5, 2, 3, 7, 2, 7, 6,
                            3, 0, 4, 3, 4, 7, 0, 3, 2, 0, 2, 1, 4, 5, 6, 4, 6, 7], 12))
   \<and> (6 \<le> length c \<longrightarrow>
      triangulateCell (Num 13) c out =
        (out @ map ((!) c) [0, 1, 2, 3, 5, 4, 0, 1, 4, 0, 4, 3, 1, 2, 5, 1, 5, 4,
                            2, 0, 3, 2, 3, 5], 8))
   \<and> (5 \<le> length c \<longrightarrow>
      triangulateCell (Num 14) c out =
        (out @ map ((!) c) [0, 1, 2, 0, 2, 3, 0, 1, 4, 1, 2, 4, 2, 3, 4, 3, 0, 4], 6))"
  by (simp add: triangulateCell_known)

theorem triangulateCell_rules_witness:
  "triangulateCell (Num 5) [10, 11, 12 :: nat] [7, 8, 9] = ([7, 8, 9, 10, 11, 12], 1)
   \<and> triangulateCell (Num 7) [10, 11, 12, 13, 14 :: nat] [7, 8, 9] =
       ([7, 8, 9, 10, 11, 12, 10, 12, 13, 10, 13, 14], 3)
   \<and> triangulateCell (Num 9) [10, 11, 12, 13 :: nat] [] = ([10, 11, 12, 10, 12, 13], 2)
   \<and> triangulateCell (Num 10) [10, 11, 12, 13 :: nat] [] =
       ([10, 11, 12, 10, 12, 13, 10, 13, 11, 11, 13, 12], 4)
   \<and> triangulateCell (Num 12) [10, 11, 12, 13, 14, 15, 16, 17 :: nat] [] =
       ([10, 11, 15, 10, 15, 14, 11, 12, 16, 11, 16, 15, 12, 13, 17, 12, 17, 16,
         13, 10, 14, 13, 14, 17, 10, 13, 12, 10, 12, 11, 14, 15, 16, 14, 16, 17], 12)
   \<and> triangulateCell (Num 13) [10, 11, 12, 13, 14, 15 :: nat] [] =
       ([10, 11, 12, 13, 15, 14, 10, 11, 14, 10, 14, 13, 11, 12, 15, 11, 15, 14,
         12, 10, 13, 12, 13, 15], 8)
   \<and> triangulateCell (Num 14) [10, 11, 12, 13, 14 :: nat] [] =
       ([10, 11, 12, 10, 12, 13, 10, 11, 14, 11, 12, 14, 12, 13, 14, 13, 10, 14], 6)"
proof -
  have five: "[1..<4] = [1, 2, Suc 2]"
    by (simp add: upt_conv_Cons)
  show ?thesis
    using triangulateCell_rules [of "[10, 11, 12 :: nat]" "[7, 8, 9]"]
      triangulateCell_rules [of "[10, 11, 12, 13, 14 :: nat]" "[7, 8, 9]"]
      triangulateCell_rules [of "[10, 11, 12, 13 :: nat]" "[]"]
      triangulateCell_rules [of "[10, 11, 12, 13, 14, 15, 16, 17 :: nat]" "[]"]
      triangulateCell_rules [of "[10, 11, 12, 13, 14, 15 :: nat]" "[]"]
      triangulateCell_rules [of "[10, 11, 12, 13, 14 :: nat]" "[]"]
    by (simp add: five)
qed

text \<open>
  C3. A cell whose index list is shorter than its type's minimum arity, and a cell whose
  type code is none of 5, 7, 9, 10, 12, 13, 14, leaves the buffer as it was and counts
  0 triangles. The function has no failing branch: it is total, and every read of the
  index list is in range, so such a cell cannot abort a parse.
\<close>

theorem triangulateCell_skips:
  "(length c < 3 \<longrightarrow> triangulateCell (Num 5) c out = (out, 0))
   \<and> (length c < 3 \<longrightarrow> triangulateCell (Num 7) c out = (out, 0))
   \<and> (length c < 4 \<longrightarrow> triangulateCell (Num 9) c out = (out, 0))
   \<and> (length c < 4 \<longrightarrow> triangulateCell (Num 10) c out = (out, 0))
   \<and> (length c < 8 \<longrightarrow> triangulateCell (Num 12) c out = (out, 0))
   \<and> (length c < 6 \<longrightarrow> triangulateCell (Num 13) c out = (out, 0))
   \<and> (length c < 5 \<longrightarrow> triangulateCell (Num 14) c out = (out, 0))
   \<and> (t \<notin> Num ` {5, 7, 9, 10, 12, 13, 14} \<longrightarrow> triangulateCell t c out = (out, 0))"
  using triangulateCell_other [of t c out] by (simp add: triangulateCell_known)

theorem triangulateCell_skips_witness:
  "triangulateCell (Num 5) [10, 11 :: nat] [7, 8, 9] = ([7, 8, 9], 0)
   \<and> triangulateCell (Num 7) [10, 11 :: nat] [7, 8, 9] = ([7, 8, 9], 0)
   \<and> triangulateCell (Num 9) [10, 11, 12 :: nat] [7, 8, 9] = ([7, 8, 9], 0)
   \<and> triangulateCell (Num 10) [10, 11, 12 :: nat] [7, 8, 9] = ([7, 8, 9], 0)
   \<and> triangulateCell (Num 12) [10, 11, 12, 13, 14, 15, 16 :: nat] [7, 8, 9] = ([7, 8, 9], 0)
   \<and> triangulateCell (Num 13) [10, 11, 12, 13, 14 :: nat] [7, 8, 9] = ([7, 8, 9], 0)
   \<and> triangulateCell (Num 14) [10, 11, 12, 13 :: nat] [7, 8, 9] = ([7, 8, 9], 0)
   \<and> triangulateCell (Num 3) [10, 11 :: nat] [7, 8, 9] = ([7, 8, 9], 0)
   \<and> triangulateCell NaN [10, 11, 12 :: nat] [7, 8, 9] = ([7, 8, 9], 0)"
  using triangulateCell_skips [of "[10, 11 :: nat]" "[7, 8, 9]" "Num 3"]
    triangulateCell_skips [of "[10, 11, 12 :: nat]" "[7, 8, 9]" "NaN"]
    triangulateCell_skips [of "[10, 11, 12, 13, 14, 15, 16 :: nat]" "[7, 8, 9]" "Num 3"]
    triangulateCell_skips [of "[10, 11, 12, 13, 14 :: nat]" "[7, 8, 9]" "Num 3"]
    triangulateCell_skips [of "[10, 11, 12, 13 :: nat]" "[7, 8, 9]" "Num 3"]
  by simp

section \<open>Properties of the cell walks\<close>

lemma emit_cell_append:
  "emit_cell i t c st =
     (fst st @ fst (triangulateCell t c []),
      snd st @ replicate (snd (triangulateCell t c [])) i)"
proof (cases st)
  case (Pair indices cellIdMap)
  show ?thesis
    using triangulateCell_append [of t c indices] by (simp add: Pair emit_cell_def)
qed

lemma assemble_from_Cons:
  "assemble_from i ((t, c) # cells) =
     (fst (triangulateCell t c []) @ fst (assemble_from (Suc i) cells),
      replicate (snd (triangulateCell t c [])) i @ snd (assemble_from (Suc i) cells))"
  by (simp split: prod.splits)

declare assemble_from.simps(2) [simp del]

lemma assemble_from_lengths:
  "length (fst (assemble_from i cells)) = 3 * length (snd (assemble_from i cells))"
proof (induction cells arbitrary: i)
  case Nil
  show ?case by simp
next
  case (Cons cell cells)
  obtain t c where cell: "cell = (t, c)" by (cases cell)
  show ?case
    using Cons [of "Suc i"] triangulateCell_grows_by_triples [of t c]
    by (simp only: cell assemble_from_Cons fst_conv snd_conv length_append length_replicate)
       simp
qed

lemma safeNumCells_less:
  assumes "js_lt (Num (real i)) (safeNumCells numberOfCells offsets types)"
  shows "i < length offsets" and "i < length types"
  using assms by (cases numberOfCells; auto simp add: safeNumCells_def split: if_splits)+

lemma js_min_length_less:
  assumes "js_lt (Num (real i)) (js_min numCells (Num (real (length cellTypes))))"
  shows "i < length cellTypes"
  using assms by (cases numCells) (auto split: if_splits)

lemma take_Suc_drop:
  "i < length xs \<Longrightarrow> take (Suc n) (drop i xs) = xs ! i # take n (drop (Suc i) xs)"
  by (simp add: Cons_nth_drop_Suc [symmetric])

text \<open>
  A walk returns exactly when the list of its calls is defined, and what it returns
  is its starting state followed by the buffers the specification describes for the
  cells of these calls, numbered from the walk's position on.
\<close>

lemma vtu_loop_calls:
  "vtu_loop numberOfCells connectivity offsets types i currentOffset st =
     (case vtu_calls numberOfCells connectivity offsets types i currentOffset of
        None \<Rightarrow> None
      | Some cells \<Rightarrow>
          Some (fst st @ fst (assemble_from i cells), snd st @ snd (assemble_from i cells)))"
proof (induction numberOfCells connectivity offsets types i currentOffset st
    rule: vtu_loop.induct)
  case (1 numberOfCells connectivity offsets types i currentOffset st)
  show ?case
  proof (cases "js_lt (Num (real i)) (safeNumCells numberOfCells offsets types)")
    case False
    then show ?thesis
      by (subst vtu_loop.simps, subst vtu_calls.simps) simp
  next
    case True
    show ?thesis
    proof (cases "slice_loop connectivity (offsets ! i) currentOffset []")
      case None
      with True show ?thesis
        by (subst vtu_loop.simps, subst vtu_calls.simps) simp
    next
      case (Some c)
      have IH: "vtu_loop numberOfCells connectivity offsets types (Suc i) (offsets ! i)
            (emit_cell i (types ! i) c st) =
          (case vtu_calls numberOfCells connectivity offsets types (Suc i) (offsets ! i) of
             None \<Rightarrow> None
           | Some cells \<Rightarrow>
               Some (fst (emit_cell i (types ! i) c st) @ fst (assemble_from (Suc i) cells),
                     snd (emit_cell i (types ! i) c st) @ snd (assemble_from (Suc i) cells)))"
        using "1.IH" [OF True refl refl Some] unfolding Suc_eq_plus1 [symmetric] .
      from True Some show ?thesis
        by (subst vtu_loop.simps, subst vtu_calls.simps)
           (simp add: IH, simp add: emit_cell_append assemble_from_Cons split: option.splits)
    qed
  qed
qed

lemma legacy_loop_calls:
  "legacy_loop numCells cellTypes cellDataRaw i cellDataIndex st =
     (case legacy_calls numCells cellTypes cellDataRaw i cellDataIndex of
        None \<Rightarrow> None
      | Some cells \<Rightarrow>
          Some (fst st @ fst (assemble_from i cells), snd st @ snd (assemble_from i cells)))"
proof (induction numCells cellTypes cellDataRaw i cellDataIndex st rule: legacy_loop.induct)
  case (1 numCells cellTypes cellDataRaw i cellDataIndex st)
  let ?go = "js_lt (Num (real i)) (js_min numCells (Num (real (length cellTypes))))
             \<and> \<not> length cellDataRaw \<le> cellDataIndex"
  show ?case
  proof (cases ?go)
    case False
    then show ?thesis
      by (subst legacy_loop.simps, subst legacy_calls.simps) auto
  next
    case True
    then have guard: "js_lt (Num (real i)) (js_min numCells (Num (real (length cellTypes))))"
      and inside: "\<not> length cellDataRaw \<le> cellDataIndex"
      by simp_all
    show ?thesis
    proof (cases "read_cell cellDataRaw (cellDataRaw ! cellDataIndex) (Num 0)
                    (cellDataIndex + 1) []")
      case None
      with guard inside show ?thesis
        by (subst legacy_loop.simps, subst legacy_calls.simps) simp
    next
      case (Some r)
      obtain c cellDataIndex' where r: "r = (c, cellDataIndex')"
        by (cases r)
      have IH: "legacy_loop numCells cellTypes cellDataRaw (Suc i) cellDataIndex'
            (emit_cell i (cellTypes ! i) c st) =
          (case legacy_calls numCells cellTypes cellDataRaw (Suc i) cellDataIndex' of
             None \<Rightarrow> None
           | Some cells \<Rightarrow>
               Some (fst (emit_cell i (cellTypes ! i) c st) @ fst (assemble_from (Suc i) cells),
                     snd (emit_cell i (cellTypes ! i) c st) @ snd (assemble_from (Suc i) cells)))"
        using "1.IH" [OF guard inside refl refl Some [unfolded r] refl]
        unfolding Suc_eq_plus1 [symmetric] .
      from guard inside Some show ?thesis
        by (subst legacy_loop.simps, subst legacy_calls.simps)
           (simp add: r IH Let_def,
            simp add: emit_cell_append assemble_from_Cons split: option.splits)
    qed
  qed
qed

subsection \<open>The buffers of a list of cells, triangle by triangle\<close>

lemma length_cell_triangles:
  "length (cell_triangles (t, c)) = 3 * snd (triangulateCell t c [])"
  "length (cell_triangles (t, c)) div 3 = snd (triangulateCell t c [])"
  by (simp_all add: cell_triangles_def triangulateCell_grows_by_triples)

lemma assemble_from_concat:
  "fst (assemble_from i cells) = concat (map cell_triangles cells)"
proof (induction cells arbitrary: i)
  case Nil
  show ?case by simp
next
  case (Cons cell cells)
  obtain t c where cell: "cell = (t, c)" by (cases cell)
  show ?case
    by (simp add: cell assemble_from_Cons Cons.IH cell_triangles_def)
qed

lemma triangles_before_Cons:
  "triangles_before (cell # cells) 0 = 0"
  "triangles_before (cell # cells) (Suc i) =
     length (cell_triangles cell) div 3 + triangles_before cells i"
  by (simp_all add: triangles_before_def)

lemma triangle_append_left:
  assumes "3 * t + 3 \<le> length xs"
  shows "triangle (xs @ ys) t = triangle xs t"
  using assms by (simp add: triangle_def)

lemma triangle_append_right:
  assumes "length xs = 3 * n" and "n \<le> t"
  shows "triangle (xs @ ys) t = triangle ys (t - n)"
proof -
  from assms have "3 * t - length xs = 3 * (t - n)" and "length xs \<le> 3 * t"
    by simp_all
  then show ?thesis
    by (simp add: triangle_def)
qed

text \<open>
  Entry \<open>t\<close> of the map that a list of cells, numbered from \<open>i0\<close> on, describes: it is
  the number of the cell among whose triangles triangle \<open>t\<close> lies.
\<close>

lemma assemble_from_entry:
  assumes "t < length (snd (assemble_from i0 cells))"
  shows "i0 \<le> snd (assemble_from i0 cells) ! t
     \<and> snd (assemble_from i0 cells) ! t - i0 < length cells
     \<and> triangles_before cells (snd (assemble_from i0 cells) ! t - i0) \<le> t
     \<and> t < triangles_before cells (Suc (snd (assemble_from i0 cells) ! t - i0))
     \<and> triangle (fst (assemble_from i0 cells)) t =
         triangle (cell_triangles (cells ! (snd (assemble_from i0 cells) ! t - i0)))
           (t - triangles_before cells (snd (assemble_from i0 cells) ! t - i0))"
  using assms
proof (induction cells arbitrary: i0 t)
  case Nil
  then show ?case by simp
next
  case (Cons cell cells)
  obtain ty c where cell: "cell = (ty, c)" by (cases cell)
  define n where "n = snd (triangulateCell ty c [])"
  define tri where "tri = cell_triangles cell"
  define F where "F = fst (assemble_from (Suc i0) cells)"
  define M where "M = snd (assemble_from (Suc i0) cells)"
  have tri: "cell_triangles cell = tri"
    by (simp add: tri_def)
  have len: "length tri = 3 * n" and count: "length tri div 3 = n"
    by (simp_all add: tri_def n_def cell length_cell_triangles)
  have buffers: "fst (assemble_from i0 (cell # cells)) = tri @ F"
    "snd (assemble_from i0 (cell # cells)) = replicate n i0 @ M"
    by (simp_all add: cell assemble_from_Cons tri_def n_def F_def M_def cell_triangles_def)
  show ?case
  proof (cases "t < n")
    case True
    then have entry: "(replicate n i0 @ M) ! t = i0"
      by (simp add: nth_append)
    from True len have "3 * t + 3 \<le> length tri"
      by simp
    then have "triangle (tri @ F) t = triangle tri t"
      by (rule triangle_append_left)
    with True show ?thesis
      by (simp add: buffers entry triangles_before_Cons tri count)
  next
    case False
    then have n: "n \<le> t" by simp
    with Cons.prems have rest: "t - n < length M"
      by (simp add: buffers)
    from n have entry: "(replicate n i0 @ M) ! t = M ! (t - n)"
      by (simp add: nth_append)
    define i where "i = M ! (t - n) - Suc i0"
    from Cons.IH [OF rest [unfolded M_def]]
    have above: "Suc i0 \<le> M ! (t - n)" and inside: "i < length cells"
      and first: "triangles_before cells i \<le> t - n"
      and last: "t - n < triangles_before cells (Suc i)"
      and same: "triangle F (t - n) =
          triangle (cell_triangles (cells ! i)) (t - n - triangles_before cells i)"
      by (simp_all add: M_def F_def i_def)
    from above have this_cell: "M ! (t - n) - i0 = Suc i"
      by (simp add: i_def)
    have moved: "triangle (tri @ F) t = triangle F (t - n)"
      using len n by (rule triangle_append_right)
    from above inside first last n show ?thesis
      by (simp add: buffers entry this_cell triangles_before_Cons tri count moved same) arith
  qed
qed

lemma attributed_assemble_from:
  "attributed cells (fst (assemble_from 0 cells)) (snd (assemble_from 0 cells))"
proof -
  let ?indices = "fst (assemble_from 0 cells)" and ?map = "snd (assemble_from 0 cells)"
  have lengths: "length ?indices = 3 * length ?map"
    by (rule assemble_from_lengths)
  have entry: "?map ! t < length cells
      \<and> triangles_before cells (?map ! t) \<le> t
      \<and> t < triangles_before cells (?map ! t + 1)
      \<and> triangle ?indices t =
          triangle (cell_triangles (cells ! (?map ! t))) (t - triangles_before cells (?map ! t))"
    if "t < length ?map" for t
    using assemble_from_entry [OF that] by simp
  show ?thesis
    unfolding attributed_def
    using lengths entry assemble_from_concat [of 0 cells] by auto
qed

text \<open>
  For a list of cells and an index buffer there is at most one map that attributes
  the triangles to the cells: the ranges of the cells' triangles do not overlap.
\<close>

lemma triangles_before_mono:
  assumes "i \<le> j"
  shows "triangles_before cells i \<le> triangles_before cells j"
proof -
  from assms have "take j cells = take i cells @ take (j - i) (drop i cells)"
    using take_add [of i "j - i" cells] by simp
  then show ?thesis
    by (simp add: triangles_before_def)
qed

lemma attributed_unique:
  assumes "attributed cells indices cellIdMap" and "attributed cells indices cellIdMap'"
  shows "cellIdMap = cellIdMap'"
proof (rule nth_equalityI)
  from assms show len: "length cellIdMap = length cellIdMap'"
    by (simp add: attributed_def)
  fix t
  assume t: "t < length cellIdMap"
  let ?i = "cellIdMap ! t" and ?j = "cellIdMap' ! t"
  from assms t len have
    i: "triangles_before cells ?i \<le> t" "t < triangles_before cells (Suc ?i)" and
    j: "triangles_before cells ?j \<le> t" "t < triangles_before cells (Suc ?j)"
    by (simp_all add: attributed_def)
  show "?i = ?j"
  proof (rule ccontr)
    assume "?i \<noteq> ?j"
    then consider "Suc ?i \<le> ?j" | "Suc ?j \<le> ?i"
      by linarith
    then show False
    proof cases
      case 1
      from triangles_before_mono [OF this, of cells] i j show False by simp
    next
      case 2
      from triangles_before_mono [OF this, of cells] i j show False by simp
    qed
  qed
qed

lemma index_buffer_build_geometry:
  "index_buffer (build_geometry st) = fst st"
  "geom_cellIdMap (build_geometry st) = snd st"
  by (cases st; simp add: index_buffer_def build_geometry_def)+

subsection \<open>The geometry of a decode\<close>

lemma vtu_geometry_attributed:
  assumes "vtu_geometry numberOfCells connectivity offsets types = Some g"
  shows "\<exists>cells. vtu_geometry_calls numberOfCells connectivity offsets types = Some cells
           \<and> attributed cells (index_buffer g) (geom_cellIdMap g)"
proof (cases "\<exists>c os ts. connectivity = Some c \<and> offsets = Some os \<and> types = Some ts")
  case True
  then obtain c os ts where
    arrays: "connectivity = Some c" "offsets = Some os" "types = Some ts"
    by blast
  with assms obtain st where
    st: "vtu_walk numberOfCells c os ts = Some st" and g: "g = build_geometry st"
    by (auto simp add: vtu_geometry_def split: option.splits)
  from st obtain cells where
    cells: "vtu_calls numberOfCells c os ts 0 (Num 0) = Some cells" and
    buffers: "st = assemble_from 0 cells"
    by (auto simp add: vtu_walk_def vtu_loop_calls split: option.splits)
  have "attributed cells (index_buffer g) (geom_cellIdMap g)"
    using attributed_assemble_from [of cells]
    by (simp add: g buffers index_buffer_build_geometry)
  with cells show ?thesis
    by (simp add: vtu_geometry_calls_def arrays)
next
  case False
  with assms have g: "g = build_geometry ([], [])"
    and none: "vtu_geometry_calls numberOfCells connectivity offsets types = Some []"
    by (auto simp add: vtu_geometry_def vtu_geometry_calls_def split: option.splits)
  have "attributed [] (index_buffer g) (geom_cellIdMap g)"
    using attributed_assemble_from [of "[]"]
    by (simp add: g index_buffer_build_geometry)
  with none show ?thesis
    by simp
qed

lemma legacy_geometry_attributed:
  assumes "legacy_geometry numCells cellTypes cellDataRaw = Some (Inr g)"
  shows "\<exists>cells. legacy_geometry_calls numCells cellTypes cellDataRaw = Some cells
           \<and> attributed cells (index_buffer g) (geom_cellIdMap g)"
proof -
  from assms obtain numCells' cellTypes' st where
    inferred: "infer_types numCells cellTypes cellDataRaw = Inr (numCells', cellTypes')" and
    st: "legacy_walk numCells' cellTypes' cellDataRaw = Some st" and
    g: "g = build_geometry st"
    by (auto simp add: legacy_geometry_def split: option.splits sum.splits)
  from st obtain cells where
    cells: "legacy_calls numCells' cellTypes' cellDataRaw 0 0 = Some cells" and
    buffers: "st = assemble_from 0 cells"
    by (auto simp add: legacy_walk_def legacy_loop_calls split: option.splits)
  have "attributed cells (index_buffer g) (geom_cellIdMap g)"
    using attributed_assemble_from [of cells]
    by (simp add: g buffers index_buffer_build_geometry)
  with cells show ?thesis
    by (simp add: legacy_geometry_calls_def inferred)
qed

text \<open>
  The geometry of a mesh that \<open>parse\<close> returns is the one its walk built, from the
  arrays that \<open>parse\<close> read.
\<close>

lemma cell_geometry_eta:
  "\<lparr>geom_index = geom_index g, geom_cellIdMap = geom_cellIdMap g\<rparr> = g"
  by (cases g) simp

lemma vtu_parse_geometry:
  assumes "vtu_parse createTypedArray appendedMap headerSize piece = Some (Inr mesh)"
  shows "\<exists>connectivity offsets types.
           vtu_geometry (pc_numberOfCells piece) connectivity offsets types =
             Some (vtu_cell_geometry mesh)
           \<and> vtu_parse_calls createTypedArray appendedMap headerSize piece =
               vtu_geometry_calls (pc_numberOfCells piece) connectivity offsets types"
  using assms
  by (auto simp add: vtu_parse_def vtu_parse_calls_def Let_def vtu_cell_geometry_def
      cell_geometry_eta split: option.splits sum.splits prod.splits) blast+

lemma legacy_parse_geometry:
  assumes "legacy_parse lines = Some (Inr mesh)"
  shows "\<exists>s. legacy_lines lines initial_state = Inr s
           \<and> legacy_geometry (num_of (ls_numCells s)) (ls_cellTypes s) (ls_cellDataRaw s) =
               Some (Inr (legacy_cell_geometry mesh))"
  using assms
  by (auto simp add: legacy_parse_def legacy_cell_geometry_def cell_geometry_eta
      split: option.splits sum.splits)

text \<open>
  C1. Whatever mesh a decode returns, XML or legacy, its cell-ID map has exactly one
  entry per triangle of its index buffer, \<open>length cellIdMap = length indexBuffer div 3\<close>
  with the length of the index buffer a multiple of 3, and entry \<open>t\<close> holds the
  0-based index of the source cell that produced triangle \<open>t\<close>. The cells are the ones
  the decode read from its input: the list of the calls of \<open>triangulateCell\<close>, with the
  type code and the vertex list of each. The index buffer holds the triangles of
  these cells in order, and for every \<open>t\<close> the entry \<open>i = cellIdMap[t]\<close> is the cell
  among whose triangles triangle \<open>t\<close> lies (after the triangles of the cells
  \<open>0, \<dots>, i - 1\<close> and before those of cell \<open>i + 1\<close>), triangle \<open>t\<close> of the buffer being
  the triangle of cell \<open>i\<close> at that place; no other map does this for the cells
  (\<open>attributed_unique\<close>). The first two parts state this for the geometry the two walks
  build, the last two for the results of the two \<open>parse\<close> methods. What the calls are
  on a well-formed input is shown further down: the ranges of the connectivity array
  for offsets that are natural numbers (\<open>vtu_calls_nat\<close>), the cells of the buffer for
  a legacy buffer of complete cells (\<open>legacy_calls_wellformed\<close>).
\<close>

theorem cellIdMap_one_entry_per_triangle:
  "(vtu_geometry numberOfCells connectivity offsets types = Some g \<longrightarrow>
      length (geom_cellIdMap g) = length (index_buffer g) div 3
      \<and> (\<exists>cells. vtu_geometry_calls numberOfCells connectivity offsets types = Some cells
            \<and> attributed cells (index_buffer g) (geom_cellIdMap g)))
   \<and> (legacy_geometry numCells cellTypes cellDataRaw = Some (Inr g') \<longrightarrow>
      length (geom_cellIdMap g') = length (index_buffer g') div 3
      \<and> (\<exists>cells. legacy_geometry_calls numCells cellTypes cellDataRaw = Some cells
            \<and> attributed cells (index_buffer g') (geom_cellIdMap g')))
   \<and> (vtu_parse createTypedArray appendedMap headerSize piece = Some (Inr mesh) \<longrightarrow>
      length (vm_cellIdMap mesh) = length (index_buffer (vtu_cell_geometry mesh)) div 3
      \<and> (\<exists>cells. vtu_parse_calls createTypedArray appendedMap headerSize piece = Some cells
            \<and> attributed cells (index_buffer (vtu_cell_geometry mesh)) (vm_cellIdMap mesh)))
   \<and> (legacy_parse lines = Some (Inr mesh') \<longrightarrow>
      length (lm_cellIdMap mesh') = length (index_buffer (legacy_cell_geometry mesh')) div 3
      \<and> (\<exists>cells. legacy_parse_calls lines = Some cells
            \<and> attributed cells (index_buffer (legacy_cell_geometry mesh'))
                 (lm_cellIdMap mesh')))"
proof -
  have xml: "length (geom_cellIdMap g) = length (index_buffer g) div 3
      \<and> (\<exists>cells. vtu_geometry_calls numberOfCells connectivity offsets types = Some cells
            \<and> attributed cells (index_buffer g) (geom_cellIdMap g))"
    if decoded: "vtu_geometry numberOfCells connectivity offsets types = Some g"
    using vtu_geometry_attributed [OF decoded] by (auto simp add: attributed_def)
  have legacy: "length (geom_cellIdMap g') = length (index_buffer g') div 3
      \<and> (\<exists>cells. legacy_geometry_calls numCells cellTypes cellDataRaw = Some cells
            \<and> attributed cells (index_buffer g') (geom_cellIdMap g'))"
    if decoded: "legacy_geometry numCells cellTypes cellDataRaw = Some (Inr g')"
    using legacy_geometry_attributed [OF decoded] by (auto simp add: attributed_def)
  have xml_parse: "length (vm_cellIdMap mesh) =
        length (index_buffer (vtu_cell_geometry mesh)) div 3
      \<and> (\<exists>cells. vtu_parse_calls createTypedArray appendedMap headerSize piece = Some cells
            \<and> attributed cells (index_buffer (vtu_cell_geometry mesh)) (vm_cellIdMap mesh))"
    if decoded: "vtu_parse createTypedArray appendedMap headerSize piece = Some (Inr mesh)"
  proof -
    from vtu_parse_geometry [OF decoded] obtain c os ts where
      geometry: "vtu_geometry (pc_numberOfCells piece) c os ts = Some (vtu_cell_geometry mesh)"
      and calls: "vtu_parse_calls createTypedArray appendedMap headerSize piece =
        vtu_geometry_calls (pc_numberOfCells piece) c os ts"
      by blast
    have "geom_cellIdMap (vtu_cell_geometry mesh) = vm_cellIdMap mesh"
      by (simp add: vtu_cell_geometry_def)
    with vtu_geometry_attributed [OF geometry] calls show ?thesis
      by (auto simp add: attributed_def)
  qed
  have legacy_parse: "length (lm_cellIdMap mesh') =
        length (index_buffer (legacy_cell_geometry mesh')) div 3
      \<and> (\<exists>cells. legacy_parse_calls lines = Some cells
            \<and> attributed cells (index_buffer (legacy_cell_geometry mesh'))
                 (lm_cellIdMap mesh'))"
    if decoded: "legacy_parse lines = Some (Inr mesh')"
  proof -
    from legacy_parse_geometry [OF decoded] obtain s :: legacy_state where
      lines: "legacy_lines lines initial_state = Inr s" and
      geometry: "legacy_geometry (num_of (ls_numCells s)) (ls_cellTypes s) (ls_cellDataRaw s) =
         Some (Inr (legacy_cell_geometry mesh'))"
      by blast
    have "geom_cellIdMap (legacy_cell_geometry mesh') = lm_cellIdMap mesh'"
      by (simp add: legacy_cell_geometry_def)
    with legacy_geometry_attributed [OF geometry] lines show ?thesis
      by (auto simp add: attributed_def legacy_parse_calls_def)
  qed
  from xml legacy xml_parse legacy_parse show ?thesis
    by blast
qed

text \<open>
  Two cells of type 5 in an XML piece, the first with two vertices only: it yields no
  triangle, and the one triangle of the geometry belongs to cell 1. A quad in a
  legacy file: both triangles belong to cell 0.
\<close>

lemma vtu_geometry_example:
  "vtu_geometry (Num 2) (Some [10, 11, 12, 13, 14 :: nat]) (Some [Num 2, Num 5])
     (Some [Num 5, Num 5]) =
   Some \<lparr>geom_index = Some [Some 12, Some 13, Some 14], geom_cellIdMap = [1]\<rparr>"
  "vtu_geometry_calls (Num 2) (Some [10, 11, 12, 13, 14 :: nat]) (Some [Num 2, Num 5])
     (Some [Num 5, Num 5]) =
   Some [(Num 5, [Some 10, Some 11]), (Num 5, [Some 12, Some 13, Some 14])]"
  by code_simp+

lemma legacy_geometry_example:
  "legacy_geometry (Num 1) [Num 9] [Num 4, Num 0, Num 1, Num 2, Num 3] =
   Some (Inr \<lparr>geom_index = Some [Num 0, Num 1, Num 2, Num 0, Num 2, Num 3],
               geom_cellIdMap = [0, 0]\<rparr>)"
  "legacy_geometry_calls (Num 1) [Num 9] [Num 4, Num 0, Num 1, Num 2, Num 3] =
   Some [(Num 9, [Num 0, Num 1, Num 2, Num 3])]"
  by code_simp+

lemma vtu_parse_example:
  "vtu_parse uint8_array example_appended 4 (example_piece []) =
   Some (Inr \<lparr>vm_position = [Num 0, Num 0, Num 0, Num 1, Num 0, Num 0, Num 0, Num 1, Num 0],
               vm_index = Some [Some (Num 0), Some (Num 1), Some (Num 2)],
               vm_pointData = [], vm_cellData = [], vm_cellIdMap = [0]\<rparr>)"
  "vtu_parse_calls uint8_array example_appended 4 (example_piece []) =
   Some [(Num 5, [Some (Num 0), Some (Num 1), Some (Num 2)])]"
  by code_simp+

lemma legacy_parse_example:
  "legacy_parse
     [Points (Some 4),
      Values [Num 0, Num 0, Num 0, Num 1, Num 0, Num 0, Num 1, Num 1, Num 0, Num 0, Num 1, Num 0],
      Cells (Some 1), Values [Num 4, Num 0, Num 1, Num 2, Num 3],
      CellTypesLine, Values [Num 9]] =
   Some (Inr \<lparr>lm_position =
                 [Some (Num 0), Some (Num 0), Some (Num 0), Some (Num 1), Some (Num 0),
                  Some (Num 0), Some (Num 1), Some (Num 1), Some (Num 0), Some (Num 0),
                  Some (Num 1), Some (Num 0)],
               lm_index = Some [Num 0, Num 1, Num 2, Num 0, Num 2, Num 3],
               lm_pointData = [], lm_cellData = [], lm_cellIdMap = [0, 0]\<rparr>)"
  "legacy_parse_calls
     [Points (Some 4),
      Values [Num 0, Num 0, Num 0, Num 1, Num 0, Num 0, Num 1, Num 1, Num 0, Num 0, Num 1, Num 0],
      Cells (Some 1), Values [Num 4, Num 0, Num 1, Num 2, Num 3],
      CellTypesLine, Values [Num 9]] =
   Some [(Num 9, [Num 0, Num 1, Num 2, Num 3])]"
  by code_simp+

text \<open>
  In the first example the map \<open>[0]\<close>, which would give the triangle to the cell that
  produced none, does not attribute the triangles to the cells.
\<close>

lemma wrong_attribution_example:
  "\<not> attributed [(Num 5, [Some 10, Some 11]), (Num 5, [Some 12, Some 13, Some (14 :: nat)])]
       [Some 12, Some 13, Some 14] [0]"
  by code_simp

theorem cellIdMap_one_entry_per_triangle_witness:
  "vtu_geometry (Num 2) (Some [10, 11, 12, 13, 14 :: nat]) (Some [Num 2, Num 5])
     (Some [Num 5, Num 5]) =
   Some \<lparr>geom_index = Some [Some 12, Some 13, Some 14], geom_cellIdMap = [1]\<rparr>
   \<and> length [1 :: nat] = length [Some 12, Some 13, Some (14 :: nat)] div 3
   \<and> attributed [(Num 5, [Some 10, Some 11]), (Num 5, [Some 12, Some 13, Some (14 :: nat)])]
        [Some 12, Some 13, Some 14] [1]
   \<and> legacy_geometry (Num 1) [Num 9] [Num 4, Num 0, Num 1, Num 2, Num 3] =
       Some (Inr \<lparr>geom_index = Some [Num 0, Num 1, Num 2, Num 0, Num 2, Num 3],
                   geom_cellIdMap = [0, 0]\<rparr>)
   \<and> attributed [(Num 9, [Num 0, Num 1, Num 2, Num 3])]
        [Num 0, Num 1, Num 2, Num 0, Num 2, Num 3] [0, 0]
   \<and> vtu_parse uint8_array example_appended 4 (example_piece []) =
       Some (Inr \<lparr>vm_position = [Num 0, Num 0, Num 0, Num 1, Num 0, Num 0, Num 0, Num 1, Num 0],
                   vm_index = Some [Some (Num 0), Some (Num 1), Some (Num 2)],
                   vm_pointData = [], vm_cellData = [], vm_cellIdMap = [0]\<rparr>)
   \<and> attributed [(Num 5, [Some (Num 0), Some (Num 1), Some (Num 2)])]
        [Some (Num 0), Some (Num 1), Some (Num 2)] [0]
   \<and> legacy_parse
        [Points (Some 4),
         Values [Num 0, Num 0, Num 0, Num 1, Num 0, Num 0, Num 1, Num 1, Num 0, Num 0, Num 1,
                 Num 0],
         Cells (Some 1), Values [Num 4, Num 0, Num 1, Num 2, Num 3],
         CellTypesLine, Values [Num 9]] =
       Some (Inr \<lparr>lm_position =
                     [Some (Num 0), Some (Num 0), Some (Num 0), Some (Num 1), Some (Num 0),
                      Some (Num 0), Some (Num 1), Some (Num 1), Some (Num 0), Some (Num 0),
                      Some (Num 1), Some (Num 0)],
                   lm_index = Some [Num 0, Num 1, Num 2, Num 0, Num 2, Num 3],
                   lm_pointData = [], lm_cellData = [], lm_cellIdMap = [0, 0]\<rparr>)"
  using cellIdMap_one_entry_per_triangle
    [where numberOfCells = "Num 2"
       and connectivity = "Some [10, 11, 12, 13, 14 :: nat]"
       and offsets = "Some [Num 2, Num 5]" and types = "Some [Num 5, Num 5]"
       and numCells = "Num 1" and cellTypes = "[Num 9]"
       and cellDataRaw = "[Num 4, Num 0, Num 1, Num 2, Num 3]"
       and createTypedArray = uint8_array and appendedMap = example_appended
       and headerSize = 4 and piece = "example_piece []"
       and lines = "[Points (Some 4),
         Values [Num 0, Num 0, Num 0, Num 1, Num 0, Num 0, Num 1, Num 1, Num 0, Num 0, Num 1,
                 Num 0],
         Cells (Some 1), Values [Num 4, Num 0, Num 1, Num 2, Num 3],
         CellTypesLine, Values [Num 9]]"
       and g = "\<lparr>geom_index = Some [Some 12, Some 13, Some 14], geom_cellIdMap = [1]\<rparr>"
       and g' = "\<lparr>geom_index = Some [Num 0, Num 1, Num 2, Num 0, Num 2, Num 3],
                   geom_cellIdMap = [0, 0]\<rparr>"
       and mesh = "\<lparr>vm_position = [Num 0, Num 0, Num 0, Num 1, Num 0, Num 0, Num 0, Num 1,
                                   Num 0],
                    vm_index = Some [Some (Num 0), Some (Num 1), Some (Num 2)],
                    vm_pointData = [], vm_cellData = [], vm_cellIdMap = [0]\<rparr>"
       and mesh' = "\<lparr>lm_position =
                     [Some (Num 0), Some (Num 0), Some (Num 0), Some (Num 1), Some (Num 0),
                      Some (Num 0), Some (Num 1), Some (Num 1), Some (Num 0), Some (Num 0),
                      Some (Num 1), Some (Num 0)],
                   lm_index = Some [Num 0, Num 1, Num 2, Num 0, Num 2, Num 3],
                   lm_pointData = [], lm_cellData = [], lm_cellIdMap = [0, 0]\<rparr>"]
  by (simp add: vtu_geometry_example legacy_geometry_example vtu_parse_example
      legacy_parse_example index_buffer_def vtu_cell_geometry_def legacy_cell_geometry_def)

subsection \<open>The XML walk on natural offsets\<close>

lemma js_index_nat:
  "js_index xs (Num (real a)) = (if a < length xs then Some (xs ! a) else None)"
  by (simp add: js_index_def)

lemma js_inc_nat:
  assumes "a < b" and "b \<le> 2 ^ 53"
  shows "js_inc (Num (real a)) = Num (real (Suc a))"
proof -
  from assms have "real a \<noteq> 2 ^ 53"
    by (metis less_le_not_le of_nat_le_iff of_nat_numeral of_nat_power order_refl)
  then show ?thesis
    by (simp add: add.commute)
qed

text \<open>
  The inner loop between two natural numbers returns, and what it appends are the
  entries of the half-open range, cut at the end of the array.
\<close>

lemma slice_loop_nat:
  "b \<le> 2 ^ 53 \<Longrightarrow>
   slice_loop connectivity (Num (real b)) (Num (real a)) cellIndices =
     Some (cellIndices @ map Some (drop a (take b connectivity)))"
proof (induction "b - a" arbitrary: a cellIndices)
  case 0
  then show ?case
    by (subst slice_loop.simps) simp
next
  case (Suc d)
  then have less: "a < b" and d: "d = b - Suc a"
    by simp_all
  note inc = js_inc_nat [OF less Suc.prems]
  note IH = Suc.hyps(1) [OF d Suc.prems]
  show ?case
  proof (cases "a < length connectivity")
    case True
    with less have "drop a (take b connectivity) =
        connectivity ! a # drop (Suc a) (take b connectivity)"
      using Cons_nth_drop_Suc [of a "take b connectivity"] by simp
    with True less show ?thesis
      by (subst slice_loop.simps) (simp add: inc js_index_nat IH del: js_inc.simps of_nat_Suc)
  next
    case False
    with less show ?thesis
      by (subst slice_loop.simps) (simp add: inc IH del: js_inc.simps of_nat_Suc)
  qed
qed

lemma safeNumCells_nat:
  "safeNumCells (Num (real n)) offsets types =
     Num (real (min n (min (length offsets) (length types))))"
  by (auto simp add: safeNumCells_def min_def)

text \<open>
  The calls of the walk on natural offsets: cell \<open>i\<close> is handed over with its type code
  and the connectivity entries of its range.
\<close>

lemma vtu_calls_nat:
  assumes "\<forall>off \<in> set offsets. off \<le> 2 ^ 53"
    and "m = min n (min (length offsets) (length types))"
  shows "i \<le> m \<Longrightarrow>
    vtu_calls (Num (real n)) connectivity (map (\<lambda>off. Num (real off)) offsets) types i
      (Num (real (runningStart offsets i))) =
    Some (map (\<lambda>i. (types ! i,
               map Some (drop (runningStart offsets i) (take (offsets ! i) connectivity))))
       [i..<m])"
proof (induction "m - i" arbitrary: i)
  case 0
  then have "i = m" by simp
  then show ?case
    by (subst vtu_calls.simps) (simp add: safeNumCells_nat assms(2))
next
  case (Suc d)
  then have less: "i < m" and d: "d = m - Suc i" and le: "Suc i \<le> m"
    by simp_all
  from less assms(2) have i: "i < length offsets"
    by simp
  then have small: "offsets ! i \<le> 2 ^ 53"
    using assms(1) by simp
  have next_start: "runningStart offsets (Suc i) = offsets ! i"
    by (simp add: runningStart_def)
  have range: "[i..<m] = i # [Suc i..<m]"
    using less by (simp add: upt_conv_Cons)
  show ?case
    using less i
    by (subst vtu_calls.simps)
       (simp add: safeNumCells_nat assms(2) [symmetric] slice_loop_nat [OF small]
          Suc.hyps(1) [OF d le, unfolded next_start] range)
qed

lemma vtu_loop_nat:
  assumes "\<forall>off \<in> set offsets. off \<le> 2 ^ 53"
    and "m = min n (min (length offsets) (length types))"
  shows "i \<le> m \<Longrightarrow>
    vtu_loop (Num (real n)) connectivity (map (\<lambda>off. Num (real off)) offsets) types i
      (Num (real (runningStart offsets i))) st =
    Some (fst st @ fst (assemble_from i (map (\<lambda>i. (types ! i,
               map Some (drop (runningStart offsets i) (take (offsets ! i) connectivity))))
       [i..<m])),
          snd st @ snd (assemble_from i (map (\<lambda>i. (types ! i,
               map Some (drop (runningStart offsets i) (take (offsets ! i) connectivity))))
       [i..<m])))"
  by (simp add: vtu_loop_calls vtu_calls_nat [OF assms])

text \<open>
  For a declared cell count \<open>n\<close> and offsets that are natural numbers (none above
  \<open>2 ^ 53\<close>, where the loop counter stops counting), the XML walk returns, and its result
  is the two buffers of exactly the first \<open>min n (min (length offsets) (length types))\<close>
  cells of the piece: cell \<open>i\<close> goes to the triangulation with the type code \<open>types[i]\<close>
  and the connectivity entries of the half-open range from \<open>runningStart\<close> to
  \<open>offsets[i]\<close>, and \<open>runningStart\<close> is \<open>offsets[i]\<close> for the cell after it.
\<close>

theorem vtu_walk_cells:
  assumes "\<forall>off \<in> set offsets. off \<le> 2 ^ 53"
  shows "vtu_walk (Num (real n)) connectivity (map (\<lambda>off. Num (real off)) offsets) types =
         Some (assemble_from 0
                 (vtu_cells connectivity offsets types
                    (min n (min (length offsets) (length types)))))"
  using vtu_loop_nat [OF assms refl, of 0 n types connectivity "([], [])"]
  by (simp add: vtu_walk_def vtu_cells_def runningStart_def)

theorem vtu_walk_cells_witness:
  "(3 :: nat) \<le> 2 ^ 53 \<and> (7 :: nat) \<le> 2 ^ 53
   \<and> vtu_walk (Num 5) [10, 11, 12, 13, 14, 15 :: nat] [Num 3, Num 7] [Num 5, Num 9, Num 5] =
       Some (assemble_from 0 [(Num 5, [Some 10, Some 11, Some 12]),
                              (Num 9, [Some 13, Some 14, Some 15])])
   \<and> assemble_from 0 [(Num 5, [Some 10, Some 11, Some (12 :: nat)]),
                       (Num 9, [Some 13, Some 14, Some 15])] =
       ([Some 10, Some 11, Some 12], [0])"
proof -
  have cells: "vtu_cells [10, 11, 12, 13, 14, 15 :: nat] [3, 7] [Num 5, Num 9, Num 5] 2 =
      [(Num 5, [Some 10, Some 11, Some 12]), (Num 9, [Some 13, Some 14, Some 15])]"
    by code_simp
  have buffers: "assemble_from 0 [(Num 5, [Some 10, Some 11, Some (12 :: nat)]),
                       (Num 9, [Some 13, Some 14, Some 15])] = ([Some 10, Some 11, Some 12], [0])"
    by code_simp
  have small: "\<forall>off \<in> set [3, 7 :: nat]. off \<le> 2 ^ 53"
    by simp
  have m: "min 5 (min (length [3, 7 :: nat]) (length [Num 5, Num 9, Num 5])) = (2 :: nat)"
    by simp
  have "vtu_walk (Num 5) [10, 11, 12, 13, 14, 15 :: nat] [Num 3, Num 7] [Num 5, Num 9, Num 5] =
      Some (assemble_from 0 [(Num 5, [Some 10, Some 11, Some 12]),
                             (Num 9, [Some 13, Some 14, Some 15])])"
    using vtu_walk_cells [OF small, of 5 "[10, 11, 12, 13, 14, 15 :: nat]" "[Num 5, Num 9, Num 5]"]
    unfolding m cells by simp
  then show ?thesis
    by (simp add: buffers)
qed

subsection \<open>Offsets that are no positions of the connectivity array\<close>

text \<open>
  For the bound \<open>+Infinity\<close> the guard \<open>k < nextOffset\<close> holds for every number \<open>k\<close>, and
  the inner loop never returns.
\<close>

lemma slice_loop_PosInf_aux:
  "slice_loop connectivity nextOffset k cellIndices = Some y \<Longrightarrow>
   \<not> (nextOffset = PosInf \<and> (\<exists>r. k = Num r))"
proof (induction rule: slice_loop.raw_induct [rotated 1, consumes 1])
  case (1 loop connectivity nextOffset k cellIndices y)
  show ?case
  proof
    assume spin: "nextOffset = PosInf \<and> (\<exists>r. k = Num r)"
    then obtain r where k: "k = Num r" and nextOffset: "nextOffset = PosInf"
      by blast
    obtain r' where inc: "js_inc k = Num r'"
      by (cases "r = 2 ^ 53") (simp_all add: k)
    from "1.hyps" obtain cellIndices' where
      "loop connectivity PosInf (Num r') cellIndices' = Some y"
      by (simp add: k nextOffset inc [unfolded k] split: if_splits del: js_inc.simps)
    then show False
      using "1.IH" by blast
  qed
qed

lemma slice_loop_PosInf:
  "slice_loop connectivity PosInf (Num 0) cellIndices = None"
  using slice_loop_PosInf_aux [of connectivity PosInf "Num 0" cellIndices]
  by (cases "slice_loop connectivity PosInf (Num 0) cellIndices") auto

lemma parseDataArray_ascii:
  "parseDataArray createTypedArray appendedMap headerSize (ascii_array type name values) =
     (if values = [] then Inr None else Inr (Some values))"
  by (simp add: parseDataArray_def ascii_array_def)

text \<open>
  C4. The statement does not hold for every \<open>offsets\<close> array the decoder reads. The
  inner loop \<open>for (k = currentOffset; k < nextOffset; k++)\<close> tests \<open>k\<close> against the end of
  \<open>connectivity\<close> only, and its guard is \<open>k < nextOffset\<close> alone.
  \<^item> With the \<open>Int32\<close> offsets \<open>-1 2\<close> over the connectivity \<open>0 1 2\<close> and two cells of
    type 5, the range of cell 1 starts at -1. The connectivity entries of the range
    from -1 to 2 are the two entries at the positions 0 and 1, too few for a
    triangle; the walk pushes \<open>connectivity[-1]\<close>, which is \<open>undefined\<close>, before them,
    hands three vertices to the triangulation, and the geometry has a triangle with
    an undefined vertex, attributed to cell 1.
  \<^item> With the \<open>Float32\<close> offset \<open>Infinity\<close> the inner loop never ends, and neither the
    walk nor \<open>parse\<close> returns.
\<close>

theorem vtu_walk_offsets_outside_connectivity:
  "vtu_walk (Num 2) [Num 0, Num 1, Num 2] [Num (- 1), Num 2] [Num 5, Num 5] =
     Some ([None, Some (Num 0), Some (Num 1)], [1])
   \<and> vtu_parse uint8_array example_appended 4
       (example_cells (Num 2) (ascii_array ''Int32'' ''offsets'' [Num (- 1), Num 2])
          (ascii_array ''UInt8'' ''types'' [Num 5, Num 5])) =
       Some (Inr \<lparr>vm_position = [Num 0, Num 0, Num 0, Num 1, Num 0, Num 0, Num 0, Num 1, Num 0],
                   vm_index = Some [None, Some (Num 0), Some (Num 1)],
                   vm_pointData = [], vm_cellData = [], vm_cellIdMap = [1]\<rparr>)
   \<and> vtu_walk (Num 1) [Num 0, Num 1, Num 2] [PosInf] [Num 5] = None
   \<and> vtu_parse uint8_array example_appended 4
       (example_cells (Num 1) (ascii_array ''Float32'' ''offsets'' [PosInf])
          (ascii_array ''UInt8'' ''types'' [Num 5])) = None"
proof -
  have negative: "vtu_walk (Num 2) [Num 0, Num 1, Num 2] [Num (- 1), Num 2] [Num 5, Num 5] =
      Some ([None, Some (Num 0), Some (Num 1)], [1])"
    by code_simp
  have negative_parse: "vtu_parse uint8_array example_appended 4
       (example_cells (Num 2) (ascii_array ''Int32'' ''offsets'' [Num (- 1), Num 2])
          (ascii_array ''UInt8'' ''types'' [Num 5, Num 5])) =
       Some (Inr \<lparr>vm_position = [Num 0, Num 0, Num 0, Num 1, Num 0, Num 0, Num 0, Num 1, Num 0],
                   vm_index = Some [None, Some (Num 0), Some (Num 1)],
                   vm_pointData = [], vm_cellData = [], vm_cellIdMap = [1]\<rparr>)"
    by code_simp
  have infinite: "vtu_walk (Num 1) [Num 0, Num 1, Num 2] [PosInf] [Num 5] = None"
    by (simp add: vtu_walk_def vtu_loop.simps safeNumCells_def slice_loop_PosInf)
  then have "vtu_geometry (Num 1) (Some [Num 0, Num 1, Num 2]) (Some [PosInf]) (Some [Num 5]) =
      None"
    by (simp add: vtu_geometry_def)
  then have infinite_parse: "vtu_parse uint8_array example_appended 4
       (example_cells (Num 1) (ascii_array ''Float32'' ''offsets'' [PosInf])
          (ascii_array ''UInt8'' ''types'' [Num 5])) = None"
    by (simp add: vtu_parse_def example_cells_def parseDataArray_ascii)
  from negative negative_parse infinite infinite_parse show ?thesis
    by simp
qed

subsection \<open>The inner loop of the legacy walk\<close>

text \<open>
  For a natural point count the inner loop returns: it appends the next \<open>n\<close> values,
  or the values up to the end of the buffer when there are fewer, and leaves the read
  position after them.
\<close>

lemma read_cell_nat:
  "n \<le> 2 ^ 53 \<Longrightarrow> j \<le> n \<Longrightarrow> cellDataIndex \<le> length cellDataRaw \<Longrightarrow>
   read_cell cellDataRaw (Num (real n)) (Num (real j)) cellDataIndex cellIndices =
     Some (cellIndices @ take (n - j) (drop cellDataIndex cellDataRaw),
           min (cellDataIndex + (n - j)) (length cellDataRaw))"
proof (induction "n - j" arbitrary: j cellDataIndex cellIndices)
  case 0
  then show ?case
    by (subst read_cell.simps) simp
next
  case (Suc d)
  then have less: "j < n" and d: "d = n - Suc j" and le: "Suc j \<le> n"
    by simp_all
  note inc = js_inc_nat [OF less Suc.prems(1)]
  have step: "n - j = Suc (n - Suc j)"
    using less by simp
  show ?case
  proof (cases "cellDataIndex < length cellDataRaw")
    case True
    then have "Suc cellDataIndex \<le> length cellDataRaw" by simp
    note IH = Suc.hyps(1) [OF d Suc.prems(1) le this]
    have "take (n - j) (drop cellDataIndex cellDataRaw) =
        cellDataRaw ! cellDataIndex # take (n - Suc j) (drop (Suc cellDataIndex) cellDataRaw)"
      using True by (simp add: step Cons_nth_drop_Suc [symmetric])
    with True less show ?thesis
      by (subst read_cell.simps) (simp add: inc IH del: js_inc.simps of_nat_Suc)
  next
    case False
    with Suc.prems have full: "cellDataIndex = length cellDataRaw" by simp
    have IH: "read_cell cellDataRaw (Num (real n)) (Num (real (Suc j))) (length cellDataRaw)
        cellIndices = Some (cellIndices, length cellDataRaw)"
      using Suc.hyps(1) [OF d Suc.prems(1) le Suc.prems(3), of cellIndices] by (simp add: full)
    from full less show ?thesis
      by (subst read_cell.simps) (simp add: inc IH del: js_inc.simps of_nat_Suc)
  qed
qed

text \<open>
  For the point count \<open>+Infinity\<close> the guard \<open>j < nPts\<close> holds for every number \<open>j\<close>, and
  the loop never returns.
\<close>

lemma read_cell_PosInf_aux:
  "read_cell cellDataRaw nPts j cellDataIndex cellIndices = Some y \<Longrightarrow>
   \<not> (nPts = PosInf \<and> (\<exists>r. j = Num r))"
proof (induction rule: read_cell.raw_induct [rotated 1, consumes 1])
  case (1 loop cellDataRaw nPts j cellDataIndex cellIndices y)
  show ?case
  proof
    assume spin: "nPts = PosInf \<and> (\<exists>r. j = Num r)"
    then obtain r where j: "j = Num r" and nPts: "nPts = PosInf"
      by blast
    obtain r' where inc: "js_inc j = Num r'"
      by (cases "r = 2 ^ 53") (simp_all add: j)
    from "1.hyps" obtain cellDataIndex' cellIndices' where
      "loop cellDataRaw PosInf (Num r') cellDataIndex' cellIndices' = Some y"
      by (simp add: j nPts inc [unfolded j] split: if_splits del: js_inc.simps)
    then show False
      using "1.IH" by blast
  qed
qed

lemma read_cell_PosInf:
  "read_cell cellDataRaw PosInf (Num 0) cellDataIndex cellIndices = None"
  using read_cell_PosInf_aux [of cellDataRaw PosInf "Num 0" cellDataIndex cellIndices]
  by (cases "read_cell cellDataRaw PosInf (Num 0) cellDataIndex cellIndices") auto

subsection \<open>The legacy walk on a buffer of complete cells\<close>

lemma nth_append_cell_values:
  "(pre @ cell_values (c # cs)) ! length pre = Num (real (length c))"
  by (simp add: cell_values_def nth_append)

text \<open>
  The calls of the walk on a buffer of complete cells: cell \<open>i\<close> is handed over with
  its type code and its point indices.
\<close>

lemma legacy_calls_wellformed:
  assumes "\<forall>c \<in> set cells. length c \<le> 2 ^ 53"
    and "length cellTypes = i + length cells"
  shows "legacy_calls (Num (real (i + length cells))) cellTypes (pre @ cell_values cells) i
           (length pre) = Some (zip (drop i cellTypes) cells)"
  using assms
proof (induction cells arbitrary: i pre)
  case Nil
  then show ?case
    by (subst legacy_calls.simps) simp
next
  case (Cons c cs)
  let ?raw = "pre @ cell_values (c # cs)"
  have raw: "?raw = (pre @ Num (real (length c)) # c) @ cell_values cs"
    by (simp add: cell_values_def)
  have small: "length c \<le> 2 ^ 53"
    using Cons.prems(1) by simp
  have i: "i < length cellTypes"
    using Cons.prems(2) by simp
  have guard: "js_lt (Num (real i))
      (js_min (Num (real (i + length (c # cs)))) (Num (real (length cellTypes))))"
    using Cons.prems(2) by simp
  have inside: "\<not> length ?raw \<le> length pre"
    by (simp add: cell_values_def)
  have cell: "read_cell ?raw (Num (real (length c))) (Num 0) (length pre + 1) [] =
      Some (c, length pre + 1 + length c)"
    using read_cell_nat [OF small, of 0 "length pre + 1" ?raw "[]"]
    by (simp add: cell_values_def)
  have types: "drop i cellTypes = cellTypes ! i # drop (Suc i) cellTypes"
    using i by (simp add: Cons_nth_drop_Suc)
  have IH: "legacy_calls (Num (real (i + length (c # cs)))) cellTypes ?raw (i + 1)
      (length pre + 1 + length c) = Some (zip (drop (Suc i) cellTypes) cs)"
    using Cons.IH [of "Suc i" "pre @ Num (real (length c)) # c"] Cons.prems
    by (simp add: raw)
  show ?case
    by (subst legacy_calls.simps)
       (simp only: guard inside if_True if_False Let_def nth_append_cell_values cell
          option.case prod.case IH types zip_Cons_Cons)
qed

lemma legacy_loop_wellformed:
  assumes "\<forall>c \<in> set cells. length c \<le> 2 ^ 53"
    and "length cellTypes = i + length cells"
  shows "legacy_loop (Num (real (i + length cells))) cellTypes (pre @ cell_values cells) i
           (length pre) st =
    Some (fst st @ fst (assemble_from i (zip (drop i cellTypes) cells)),
          snd st @ snd (assemble_from i (zip (drop i cellTypes) cells)))"
  by (simp only: legacy_loop_calls legacy_calls_wellformed [OF assms] option.case)

subsection \<open>The type-inference loop\<close>

text \<open>
  On a buffer of complete cells the loop pushes one type per cell, the table's value
  of the cell's point count. It returns them when the array of types can hold them,
  which it can for every buffer that is itself an array.
\<close>

lemma infer_loop_wellformed:
  "length cellTypes < 2 ^ 32 \<Longrightarrow>
   infer_loop (pre @ cell_values cells) (Num (real (length pre))) cellTypes =
     (if length cellTypes + length cells < 2 ^ 32
      then Inr (cellTypes @ map (\<lambda>c. infer_type (Num (real (length c)))) cells)
      else Inl RangeError)"
proof (induction cells arbitrary: pre cellTypes)
  case Nil
  then show ?case
    by (subst infer_loop.simps) (simp add: cell_values_def)
next
  case (Cons c cs)
  have raw: "pre @ cell_values (c # cs) = (pre @ Num (real (length c)) # c) @ cell_values cs"
    by (simp add: cell_values_def)
  have prefix: "js_read (pre @ cell_values (c # cs)) (Num (real (length pre))) =
      Num (real (length c))"
    by (simp add: js_read_def js_index_nat nth_append_cell_values) (simp add: cell_values_def)
  have inside: "js_lt (Num (real (length pre))) (Num (real (length (pre @ cell_values (c # cs)))))"
    by (simp add: cell_values_def)
  have moved: "js_add (Num (real (length pre))) (js_add (Num (real (length c))) (Num 1)) =
      Num (real (length (pre @ Num (real (length c)) # c)))"
    by simp
  show ?case
  proof (cases "int (length cellTypes) \<ge> 2 ^ 32 - 1")
    case True
    then have full: "\<not> length cellTypes + length (c # cs) < 2 ^ 32"
      by simp
    from True show ?thesis
      by (subst infer_loop.simps) (simp only: inside if_True Let_def full if_False)
  next
    case False
    then have room: "length (cellTypes @ [infer_type (Num (real (length c)))]) < 2 ^ 32"
      by simp
    have count: "length (cellTypes @ [infer_type (Num (real (length c)))]) + length cs =
        length cellTypes + length (c # cs)"
      by simp
    from False show ?thesis
      by (subst infer_loop.simps)
         (simp only: inside if_True if_False Let_def prefix moved,
          simp only: raw Cons.IH [OF room] count, simp)
  qed
qed

text \<open>
  On the buffer that holds the one value -1 the position never moves: the loop pushes
  a type every turn and ends when the array is full.
\<close>

lemma infer_loop_minus_one_from:
  "infer_loop [Num (- 1)] (Num 0) cellTypes = Inl RangeError"
proof (induction cellTypes rule: measure_induct_rule [where f = "\<lambda>tys. 2 ^ 32 - 1 - length tys"])
  case (less cellTypes)
  have stay: "js_add (Num 0) (js_add (js_read [Num (- 1)] (Num 0)) (Num 1)) = Num 0"
    by (simp add: js_read_def js_index_def)
  show ?case
  proof (cases "int (length cellTypes) \<ge> 2 ^ 32 - 1")
    case True
    then show ?thesis
      by (subst infer_loop.simps) simp
  next
    case False
    then have "(2 :: nat) ^ 32 - 1 - length (cellTypes @ [infer_type (js_read [Num (- 1)] (Num 0))])
        < 2 ^ 32 - 1 - length cellTypes"
      by simp
    from less.IH [OF this] False show ?thesis
      by (subst infer_loop.simps) (simp add: Let_def stay)
  qed
qed

lemma infer_loop_minus_one: "infer_loop [Num (- 1)] (Num 0) [] = Inl RangeError"
  by (rule infer_loop_minus_one_from)

lemma infer_positions_nonneg:
  assumes "\<forall>index \<in> infer_positions raw.
             js_lt index (Num (real (length raw))) \<longrightarrow> js_nonneg (js_read raw index)"
  shows "index \<in> infer_positions raw \<Longrightarrow> index = PosInf \<or> (\<exists>r. index = Num r \<and> 0 \<le> r)"
proof (induction rule: infer_positions.induct)
  case start
  show ?case by simp
next
  case (step index)
  with assms have "js_nonneg (js_read raw index)" by blast
  with step show ?case
    by (auto simp add: js_nonneg_def split: jsnum.splits)
qed

text \<open>
  From every position the loop reaches it returns, when the prefixes it encounters are
  nonnegative: the position then grows by at least 1 with every cell, so the loop has
  pushed no more types than the position counts, and it ends when the position has
  passed the end of the buffer.
\<close>

lemma infer_loop_returns:
  assumes nonneg: "\<forall>index \<in> infer_positions raw.
             js_lt index (Num (real (length raw))) \<longrightarrow> js_nonneg (js_read raw index)"
    and array: "length raw < 2 ^ 32"
  shows "Num r \<in> infer_positions raw \<Longrightarrow> real (length acc) \<le> r \<Longrightarrow>
         \<exists>tys. infer_loop raw (Num r) acc = Inr tys"
proof (induction "nat \<lceil>real (length raw) - r\<rceil>" arbitrary: r acc rule: less_induct)
  case less
  show ?case
  proof (cases "r < real (length raw)")
    case False
    then show ?thesis
      by (subst infer_loop.simps) simp
  next
    case True
    let ?next = "js_add (Num r) (js_add (js_read raw (Num r)) (Num 1))"
    let ?acc = "acc @ [infer_type (js_read raw (Num r))]"
    have visited: "?next \<in> infer_positions raw"
      using less.prems(1) True by (intro infer_positions.step) simp_all
    have prefix: "js_nonneg (js_read raw (Num r))"
      using nonneg less.prems(1) True by auto
    from True less.prems(2) have "length acc < length raw"
      by linarith
    with array have room: "\<not> int (length acc) \<ge> 2 ^ 32 - 1"
      by simp
    have unfold: "infer_loop raw (Num r) acc = infer_loop raw ?next ?acc"
      using True room by (subst infer_loop.simps) (simp add: Let_def)
    show ?thesis
    proof (cases "js_read raw (Num r)")
      case (Num p)
      with prefix have p: "0 \<le> p" by (simp add: js_nonneg_def)
      have nxt: "?next = Num (r + (p + 1))"
        by (simp add: Num)
      have "nat \<lceil>real (length raw) - (r + (p + 1))\<rceil> < nat \<lceil>real (length raw) - r\<rceil>"
        using True p by linarith
      moreover have "real (length ?acc) \<le> r + (p + 1)"
        using less.prems(2) p by simp
      ultimately show ?thesis
        using less.hyps [OF _ visited [unfolded nxt], of ?acc]
        by (simp add: unfold nxt)
    next
      case PosInf
      then have "?next = PosInf" by simp
      then show ?thesis
        by (simp add: unfold) (subst infer_loop.simps, simp)
    next
      case NaN
      with prefix show ?thesis by (simp add: js_nonneg_def)
    next
      case NegInf
      with prefix show ?thesis by (simp add: js_nonneg_def)
    qed
  qed
qed

lemma infer_types_wellformed:
  "cells \<noteq> [] \<Longrightarrow>
   infer_types numCells [] (cell_values cells) =
     (if length cells < 2 ^ 32
      then Inr (Num (real (length cells)), map (\<lambda>c. infer_type (Num (real (length c)))) cells)
      else Inl RangeError)"
  using infer_loop_wellformed [of "[]" "[]" cells]
  by (cases cells) (simp_all add: infer_types_def cell_values_def)

subsection \<open>Poly-data files without cell types\<close>

lemma assemble_from_lines:
  "\<forall>cell \<in> set cells. fst cell = Num 3 \<Longrightarrow> assemble_from i cells = ([], [])"
proof (induction cells arbitrary: i)
  case Nil
  show ?case by simp
next
  case (Cons cell cells)
  obtain t c where cell: "cell = (t, c)" by (cases cell)
  with Cons.prems have t: "t = Num 3" by simp
  have "triangulateCell (Num 3) c [] = ([], 0)"
    by (rule triangulateCell_other) simp
  with Cons show ?case
    by (simp add: cell t assemble_from_Cons)
qed

lemma legacy_geometry_lines:
  assumes "\<forall>c \<in> set cells. length c = 2"
  shows "legacy_geometry numCells [] (cell_values cells) =
         (if length cells < 2 ^ 32
          then Some (Inr \<lparr>geom_index = None, geom_cellIdMap = []\<rparr>)
          else Some (Inl RangeError))"
proof (cases "cells = []")
  case True
  then show ?thesis
    by (simp add: legacy_geometry_def infer_types_def cell_values_def legacy_walk_def
        legacy_loop.simps build_geometry_def)
next
  case False
  let ?types = "map (\<lambda>c. infer_type (Num (real (length c)))) cells"
  have types: "?types = replicate (length cells) (Num 3)"
    using assms by (simp add: map_replicate_const [symmetric] infer_type_def cong: map_cong)
  have small: "\<forall>c \<in> set cells. length c \<le> 2 ^ 53"
    using assms by simp
  have "legacy_walk (Num (real (length cells))) ?types (cell_values cells) =
      Some (assemble_from 0 (zip ?types cells))"
    using legacy_loop_wellformed [OF small, of ?types 0 "[]" "([], [])"]
    by (simp add: legacy_walk_def)
  moreover have "assemble_from 0 (zip ?types cells) = ([], [])"
    by (rule assemble_from_lines) (auto simp add: types dest!: set_zip_leftD)
  ultimately show ?thesis
    using False
    by (simp add: legacy_geometry_def infer_types_wellformed build_geometry_def)
qed

text \<open>
  C8. In the legacy decoder, when no cell types were parsed and the raw cell buffer is
  not empty, the types are inferred from the arity prefixes alone: 1 gives Vertex (1),
  2 gives Line (3), 3 gives Triangle (5), 4 gives Quad (9), 5 or more gives Polygon
  (7); for a buffer of complete cells the inferred types are these values of the cells'
  point counts, one per cell. For a file with only 2-point lines every inferred type is
  3, the triangulation of each line adds no triangle, and the decode returns a
  geometry without index and with an empty cell-ID map. The two equations hold for
  every list of cells: they give these results for fewer than \<open>2 ^ 32\<close> cells, which
  is every buffer that an array can hold, and the \<open>RangeError\<close> of the full type array
  for the lists beyond.
\<close>

theorem legacy_polydata_inference:
  "infer_type (Num 1) = Num 1 \<and> infer_type (Num 2) = Num 3 \<and> infer_type (Num 3) = Num 5
   \<and> infer_type (Num 4) = Num 9 \<and> (\<forall>n \<ge> 5. infer_type (Num (real n)) = Num 7)
   \<and> (cells \<noteq> [] \<longrightarrow>
        infer_types numCells [] (cell_values cells) =
          (if length cells < 2 ^ 32
           then Inr (Num (real (length cells)),
                     map (\<lambda>c. infer_type (Num (real (length c)))) cells)
           else Inl RangeError))
   \<and> ((\<forall>c \<in> set cells. length c = 2) \<longrightarrow>
        map (\<lambda>c. infer_type (Num (real (length c)))) cells = replicate (length cells) (Num 3)
        \<and> (\<forall>c \<in> set cells. triangulateCell (Num 3) c indices = (indices, 0))
        \<and> legacy_geometry numCells [] (cell_values cells) =
            (if length cells < 2 ^ 32
             then Some (Inr \<lparr>geom_index = None, geom_cellIdMap = []\<rparr>)
             else Some (Inl RangeError)))"
proof -
  have table: "\<forall>n \<ge> 5. infer_type (Num (real n)) = Num 7"
    by (auto simp add: infer_type_def)
  have lines: "map (\<lambda>c. infer_type (Num (real (length c)))) cells =
      replicate (length cells) (Num 3)" if "\<forall>c \<in> set cells. length c = 2"
    using that by (simp add: map_replicate_const [symmetric] infer_type_def cong: map_cong)
  have skipped: "triangulateCell (Num 3) c indices = (indices, 0)" for c :: "jsnum list"
    by (rule triangulateCell_other) simp
  show ?thesis
    using table lines skipped infer_types_wellformed [of cells numCells]
      legacy_geometry_lines [of cells numCells]
    by (simp add: infer_type_def)
qed

text \<open>
  A poly-data file with three points and two lines, \<open>POINTS 3 float\<close>, the nine
  coordinates, \<open>LINES 2 6\<close>, \<open>2 0 1\<close>, \<open>2 1 2\<close>: \<open>parse\<close> returns the points, no index
  and an empty cell-ID map.
\<close>

lemma legacy_parse_lines_example:
  "legacy_parse
     [Dataset (Some ''polydata''), Points (Some 3),
      Values [Num 0, Num 0, Num 0, Num 1, Num 0, Num 0, Num 0, Num 1, Num 0],
      Lines, Values [Num 2, Num 0, Num 1], Values [Num 2, Num 1, Num 2]] =
   Some (Inr \<lparr>lm_position =
                 [Some (Num 0), Some (Num 0), Some (Num 0), Some (Num 1), Some (Num 0),
                  Some (Num 0), Some (Num 0), Some (Num 1), Some (Num 0)],
               lm_index = None, lm_pointData = [], lm_cellData = [], lm_cellIdMap = []\<rparr>)"
  by code_simp

theorem legacy_polydata_inference_witness:
  "infer_type (Num (real (6 :: nat))) = Num 7
   \<and> infer_types (Num 0) [] [Num 2, Num 0, Num 1, Num 3, Num 1, Num 2, Num 0] =
       Inr (Num 2, [Num 3, Num 5])
   \<and> legacy_geometry (Num 0) [] [Num 2, Num 0, Num 1, Num 2, Num 1, Num 2] =
       Some (Inr \<lparr>geom_index = None, geom_cellIdMap = []\<rparr>)
   \<and> legacy_parse
        [Dataset (Some ''polydata''), Points (Some 3),
         Values [Num 0, Num 0, Num 0, Num 1, Num 0, Num 0, Num 0, Num 1, Num 0],
         Lines, Values [Num 2, Num 0, Num 1], Values [Num 2, Num 1, Num 2]] =
       Some (Inr \<lparr>lm_position =
                     [Some (Num 0), Some (Num 0), Some (Num 0), Some (Num 1), Some (Num 0),
                      Some (Num 0), Some (Num 0), Some (Num 1), Some (Num 0)],
                   lm_index = None, lm_pointData = [], lm_cellData = [],
                   lm_cellIdMap = []\<rparr>)"
  using legacy_polydata_inference [of "[[Num 0, Num 1], [Num 1, Num 2, Num 0]]" "Num 0"]
    legacy_polydata_inference [of "[[Num 0, Num 1], [Num 1, Num 2]]" "Num 0"]
  by (simp add: cell_values_def infer_type_def legacy_parse_lines_example)

subsection \<open>A truncated cell buffer\<close>

lemma legacy_loop_returns:
  assumes natural: "\<forall>x \<in> set cellDataRaw. \<exists>n \<le> 2 ^ 53. x = Num (real n)"
  shows "\<exists>st'. legacy_loop numCells cellTypes cellDataRaw i cellDataIndex st = Some st'"
  using natural
proof (induction numCells cellTypes cellDataRaw i cellDataIndex st rule: legacy_loop.induct)
  case (1 numCells cellTypes cellDataRaw i cellDataIndex st)
  let ?go = "js_lt (Num (real i)) (js_min numCells (Num (real (length cellTypes))))
             \<and> \<not> length cellDataRaw \<le> cellDataIndex"
  show ?case
  proof (cases ?go)
    case False
    then show ?thesis
      by (subst legacy_loop.simps) auto
  next
    case True
    then have guard: "js_lt (Num (real i)) (js_min numCells (Num (real (length cellTypes))))"
      and inside: "\<not> length cellDataRaw \<le> cellDataIndex"
      by simp_all
    from inside "1.prems" obtain n where
      n: "n \<le> 2 ^ 53" and nPts: "cellDataRaw ! cellDataIndex = Num (real n)"
      by (metis not_le nth_mem)
    let ?c = "take n (drop (cellDataIndex + 1) cellDataRaw)"
    let ?next = "min (cellDataIndex + 1 + n) (length cellDataRaw)"
    have cell: "read_cell cellDataRaw (cellDataRaw ! cellDataIndex) (Num 0) (cellDataIndex + 1) []
        = Some (?c, ?next)"
      using read_cell_nat [OF n, of 0 "cellDataIndex + 1" cellDataRaw "[]"] inside
      by (simp add: nPts)
    from "1.IH" [OF guard inside refl refl cell refl "1.prems"] obtain st' where
      "legacy_loop numCells cellTypes cellDataRaw (i + 1) ?next
         (emit_cell i (cellTypes ! i) ?c st) = Some st'"
      by blast
    with guard inside cell show ?thesis
      by (subst legacy_loop.simps) (simp add: Let_def)
  qed
qed

text \<open>
  The walk of the legacy decoder on a buffer whose values are natural numbers (none
  above \<open>2 ^ 53\<close>), however short the buffer is for the cells announced: the walk
  returns; a cell whose point count would be read at or past the end of the buffer
  ends the walk with the state reached (the \<open>break\<close>); and a cell's vertex list is the
  \<open>n\<close> values after its point count, or the values up to the end of the buffer when
  there are fewer, so every value read is a value of the buffer.
\<close>

theorem legacy_walk_stops_early:
  "((\<forall>x \<in> set cellDataRaw. \<exists>n \<le> 2 ^ 53. x = Num (real n)) \<longrightarrow>
      (\<exists>st. legacy_walk numCells cellTypes cellDataRaw = Some st))
   \<and> (length cellDataRaw \<le> cellDataIndex \<longrightarrow>
      legacy_loop numCells cellTypes cellDataRaw i cellDataIndex st = Some st)
   \<and> (n \<le> 2 ^ 53 \<and> cellDataIndex \<le> length cellDataRaw \<longrightarrow>
      read_cell cellDataRaw (Num (real n)) (Num 0) cellDataIndex [] =
        Some (take n (drop cellDataIndex cellDataRaw),
              min (cellDataIndex + n) (length cellDataRaw)))"
proof -
  have returns: "\<exists>st. legacy_walk numCells cellTypes cellDataRaw = Some st"
    if "\<forall>x \<in> set cellDataRaw. \<exists>n \<le> 2 ^ 53. x = Num (real n)"
    using legacy_loop_returns [OF that] by (simp add: legacy_walk_def)
  have stop: "legacy_loop numCells cellTypes cellDataRaw i cellDataIndex st = Some st"
    if "length cellDataRaw \<le> cellDataIndex"
    using that by (subst legacy_loop.simps) simp
  have cut: "read_cell cellDataRaw (Num (real n)) (Num 0) cellDataIndex [] =
        Some (take n (drop cellDataIndex cellDataRaw),
              min (cellDataIndex + n) (length cellDataRaw))"
    if "n \<le> 2 ^ 53" and "cellDataIndex \<le> length cellDataRaw"
    using read_cell_nat [OF that(1) _ that(2), of 0 "[]"] by simp
  from returns stop cut show ?thesis
    by blast
qed

theorem legacy_walk_stops_early_witness:
  "legacy_walk (Num 3) [Num 5, Num 9, Num 5] [Num 3, Num 0, Num 1, Num 2, Num 4, Num 0] =
     Some ([Num 0, Num 1, Num 2], [0])
   \<and> legacy_loop (Num 3) [Num 5, Num 9, Num 5] [Num 3, Num 0, Num 1, Num 2, Num 4, Num 0]
        2 6 ([Num 0, Num 1, Num 2], [0]) = Some ([Num 0, Num 1, Num 2], [0])
   \<and> read_cell [Num 3, Num 0, Num 1, Num 2, Num 4, Num 0] (Num 4) (Num 0) 5 [] =
       Some ([Num 0], 6)"
proof -
  let ?raw = "[Num 3, Num 0, Num 1, Num 2, Num 4, Num 0]"
  have walk: "legacy_walk (Num 3) [Num 5, Num 9, Num 5] ?raw = Some ([Num 0, Num 1, Num 2], [0])"
    by code_simp
  have four: "(4 :: nat) \<le> 2 ^ 53 \<and> (5 :: nat) \<le> length ?raw" and "length ?raw \<le> 6"
    by simp_all
  then show ?thesis
    using legacy_walk_stops_early
      [where cellDataRaw = ?raw and numCells = "Num 3" and cellTypes = "[Num 5, Num 9, Num 5]"
         and cellDataIndex = 6 and i = 2 and st = "([Num 0, Num 1, Num 2], [0])" and n = 4]
      legacy_walk_stops_early [where cellDataRaw = ?raw and cellDataIndex = 5 and n = 4]
    by (simp add: walk)
qed

lemma legacy_lines_infinite_arity:
  "legacy_lines [Cells (Some 1), Values [PosInf, Num 0, Num 1, Num 2], CellTypesLine,
                 Values [Num 5]] initial_state = Inr s \<Longrightarrow>
   num_of (ls_numCells s) = Num 1 \<and> ls_cellTypes s = [Num 5]
   \<and> ls_cellDataRaw s = [PosInf, Num 0, Num 1, Num 2]"
  by (auto simp add: initial_state_def num_of_def)

text \<open>
  C9. The last part of the statement does not hold for every short buffer. The guard
  of the inner loop is \<open>j < nPts\<close> alone; the test against the end of the buffer only
  keeps the body from reading. A point count of \<open>Infinity\<close>, which \<open>parseFloat\<close> yields
  for the token \<open>Infinity\<close> and which \<open>parseNumbers\<close> keeps, is a count the buffer
  cannot satisfy, and on it the walk never returns: for the lines \<open>CELLS 1 4\<close>,
  \<open>Infinity 0 1 2\<close>, \<open>CELL_TYPES 1\<close>, \<open>5\<close> the result of the walk, and with it the
  result of \<open>parse\<close>, is \<open>None\<close>.
\<close>

theorem legacy_walk_infinite_arity:
  "legacy_walk (Num 1) [Num 5] [PosInf, Num 0, Num 1, Num 2] = None
   \<and> legacy_parse [Cells (Some 1), Values [PosInf, Num 0, Num 1, Num 2], CellTypesLine,
                      Values [Num 5]] = None"
proof -
  have walk: "legacy_walk (Num 1) [Num 5] [PosInf, Num 0, Num 1, Num 2] = None"
    by (simp add: legacy_walk_def legacy_loop.simps read_cell_PosInf)
  have "legacy_geometry (Num 1) [Num 5] [PosInf, Num 0, Num 1, Num 2] = None"
    by (simp add: legacy_geometry_def infer_types_def walk)
  then have "legacy_parse [Cells (Some 1), Values [PosInf, Num 0, Num 1, Num 2], CellTypesLine,
                           Values [Num 5]] = None"
    using legacy_lines_infinite_arity
    by (auto simp add: legacy_parse_def split: sum.splits)
  with walk show ?thesis by simp
qed

text \<open>
  C10. Each iteration of the type-inference loop inside the buffer moves the read
  position by the arity prefix plus 1, and pushes one type, which the array of types
  takes as long as it is not full. On every buffer whose encountered prefixes are
  nonnegative numbers the loop returns; the buffer is an array, of fewer than \<open>2 ^ 32\<close>
  values. Nonnegativity is sufficient for this, not necessary, as the theorem after
  this one shows.
\<close>

theorem infer_loop_terminates:
  "(js_lt index (Num (real (length raw))) \<and> length tys < 2 ^ 32 - 1 \<longrightarrow>
      infer_loop raw index tys =
        infer_loop raw (js_add index (js_add (js_read raw index) (Num 1)))
          (tys @ [infer_type (js_read raw index)]))
   \<and> ((\<forall>p \<in> infer_positions raw.
          js_lt p (Num (real (length raw))) \<longrightarrow> js_nonneg (js_read raw p))
        \<and> length raw < 2 ^ 32 \<longrightarrow>
        (\<exists>tys'. infer_loop raw (Num 0) [] = Inr tys'))"
proof -
  have step: "infer_loop raw index tys =
        infer_loop raw (js_add index (js_add (js_read raw index) (Num 1)))
          (tys @ [infer_type (js_read raw index)])"
    if "js_lt index (Num (real (length raw)))" and "length tys < 2 ^ 32 - 1"
    using that by (subst infer_loop.simps) (simp add: Let_def)
  have returns: "\<exists>tys'. infer_loop raw (Num 0) [] = Inr tys'"
    if "\<forall>p \<in> infer_positions raw.
          js_lt p (Num (real (length raw))) \<longrightarrow> js_nonneg (js_read raw p)"
      and "length raw < 2 ^ 32"
    using infer_loop_returns [OF that infer_positions.start, of "[]"] by simp
  from step returns show ?thesis
    by blast
qed

lemma infer_positions_example:
  "p \<in> infer_positions [Num 2, Num 0, Num 1, Num 3, Num 0, Num 1, Num 2] \<Longrightarrow>
   p = Num 0 \<or> p = Num 3 \<or> p = Num 7"
  by (induction rule: infer_positions.induct) (auto simp add: js_read_def js_index_def)

theorem infer_loop_terminates_witness:
  "js_nonneg (js_read [Num 2, Num 0, Num 1, Num 3, Num 0, Num 1, Num 2] (Num 0))
   \<and> js_nonneg (js_read [Num 2, Num 0, Num 1, Num 3, Num 0, Num 1, Num 2] (Num 3))
   \<and> (\<exists>tys'. infer_loop [Num 2, Num 0, Num 1, Num 3, Num 0, Num 1, Num 2] (Num 0) [] = Inr tys')
   \<and> infer_loop [Num 2, Num 0, Num 1, Num 3, Num 0, Num 1, Num 2] (Num 0) [] =
       infer_loop [Num 2, Num 0, Num 1, Num 3, Num 0, Num 1, Num 2] (Num 3) [Num 3]"
proof -
  let ?raw = "[Num 2, Num 0, Num 1, Num 3, Num 0, Num 1, Num 2]"
  have first: "js_nonneg (js_read ?raw (Num 0))" and second: "js_nonneg (js_read ?raw (Num 3))"
    by (simp_all add: js_read_def js_index_def js_nonneg_def)
  have nonneg: "\<forall>p \<in> infer_positions ?raw.
          js_lt p (Num (real (length ?raw))) \<longrightarrow> js_nonneg (js_read ?raw p)"
    using first second by (auto dest!: infer_positions_example)
  have array: "length ?raw < 2 ^ 32"
    by simp
  have inside: "js_lt (Num 0) (Num (real (length ?raw))) \<and> length ([] :: jsnum list) < 2 ^ 32 - 1"
    by simp
  note loop = infer_loop_terminates [of "Num 0" ?raw "[]"]
  from loop nonneg array have returns: "\<exists>tys'. infer_loop ?raw (Num 0) [] = Inr tys'"
    by blast
  from loop inside have "infer_loop ?raw (Num 0) [] =
      infer_loop ?raw (js_add (Num 0) (js_add (js_read ?raw (Num 0)) (Num 1)))
        ([] @ [infer_type (js_read ?raw (Num 0))])"
    by blast
  then have step: "infer_loop ?raw (Num 0) [] = infer_loop ?raw (Num 3) [Num 3]"
    by (simp add: js_read_def js_index_def infer_type_def)
  from first second returns step show ?thesis
    by blast
qed

text \<open>
  On the buffer that holds the one value -2 the loop encounters a negative prefix and
  returns: after the prefix -2 the position is -1, inside the loop's guard; the read
  there is \<open>undefined\<close>, the position becomes \<open>NaN\<close>, and the loop ends with two inferred
  types.
\<close>

theorem infer_loop_negative_prefix_counterexample:
  "Num 0 \<in> infer_positions [Num (- 2)]
   \<and> js_lt (Num 0) (Num (real (length [Num (- 2)])))
   \<and> \<not> js_nonneg (js_read [Num (- 2)] (Num 0))
   \<and> infer_loop [Num (- 2)] (Num 0) [] = Inr [Num 7, Num 7]"
proof -
  have "infer_loop [Num (- 2)] (Num 0) [] = Inr [Num 7, Num 7]"
    by code_simp
  then show ?thesis
    by (simp add: js_read_def js_index_def js_nonneg_def infer_positions.start)
qed

section \<open>Properties of the XML loader's data arrays\<close>

lemma le_nat_append: "le_nat (xs @ ys) = le_nat xs + 256 ^ length xs * le_nat ys"
  by (induction xs) (simp_all add: algebra_simps)

lemma take4_drop:
  "p + 4 \<le> length xs \<Longrightarrow>
   take 4 (drop p xs) = [xs ! p, xs ! (p + 1), xs ! (p + 2), xs ! (p + 3)]"
proof -
  assume "p + 4 \<le> length xs"
  then have "drop p xs = xs ! p # xs ! (p + 1) # xs ! (p + 2) # xs ! (p + 3) # drop (p + 4) xs"
    by (simp add: Cons_nth_drop_Suc numeral_eq_Suc)
  then show ?thesis by simp
qed

lemma getUint32_le_nat:
  "p + 4 \<le> length buffer \<Longrightarrow> getUint32 buffer (int p) = Inr (le_nat (take 4 (drop p buffer)))"
  by (simp add: getUint32_def take4_drop Let_def)

lemma le_nat_8:
  "le_nat (take 8 (drop p buffer)) =
     le_nat (take 4 (drop p buffer)) + le_nat (take 4 (drop (p + 4) buffer)) * 2 ^ 32"
     if "p + 8 \<le> length buffer"
proof -
  have "take 8 (drop p buffer) = take 4 (drop p buffer) @ take 4 (drop (p + 4) buffer)"
    using take_add [of 4 4 "drop p buffer"] by (simp add: add.commute)
  moreover have "length (take 4 (drop p buffer)) = 4"
    using that by simp
  ultimately show ?thesis
    by (simp add: le_nat_append)
qed

lemma read_byteSize_le_nat:
  assumes "headerSize = 4 \<or> headerSize = 8" and "p + headerSize \<le> length buffer"
  shows "read_byteSize buffer headerSize (int p) = Inr (le_nat (take headerSize (drop p buffer)))"
proof (cases "headerSize = 8")
  case True
  with assms(2) have "p + 4 \<le> length buffer" "(p + 4) + 4 \<le> length buffer" "p + 8 \<le> length buffer"
    by simp_all
  then show ?thesis
    using getUint32_le_nat [of p buffer] getUint32_le_nat [of "p + 4" buffer] le_nat_8 [of p buffer]
    by (simp add: read_byteSize_def True)
next
  case False
  with assms show ?thesis
    by (simp add: read_byteSize_def getUint32_le_nat)
qed


text \<open>
  C5. For an appended-format array whose resolved start position \<open>start\<close> is not negative
  (the array's offset, counted from the byte after the marker for the raw encoding and
  from the first decoded byte for base64), with the header size the file's header type
  gives (8 bytes for \<open>UInt64\<close>, 4 bytes otherwise): \<open>byteSize\<close> being
  the little-endian value of the \<open>headerSize\<close> bytes at \<open>start\<close> (for 8 bytes, the low
  32-bit word plus \<open>2 ^ 32\<close> times the high one), the decoder hands exactly the
  \<open>byteSize\<close> bytes after the header to the typed-array conversion when header and
  payload lie inside the buffer, and returns \<open>null\<close> when the header or the payload
  would extend past its end.
\<close>

theorem appended_array_header_and_payload:
  assumes "da_format element = Some ''appended''"
    and "da_offset element = Some (Some offset)"
    and "am_buffer appendedMap = Some buffer"
    and "start = (if am_encoding appendedMap = ''raw''
                  then int (am_offsetStart appendedMap) + offset else offset)"
    and "0 \<le> start"
    and "headerSize = headerSize_of headerType"
    and "byteSize = le_nat (take headerSize (drop (nat start) buffer))"
  shows "(nat start + headerSize + byteSize \<le> length buffer \<longrightarrow>
           parseDataArray createTypedArray appendedMap headerSize element =
             Inr (Some (createTypedArray (da_type element)
                          (take byteSize (drop (nat start + headerSize) buffer)))))
       \<and> (nat start + headerSize > length buffer \<or>
          nat start + headerSize + byteSize > length buffer \<longrightarrow>
           parseDataArray createTypedArray appendedMap headerSize element = Inr None)
       \<and> (headerSize = 8 \<and> nat start + 8 \<le> length buffer \<longrightarrow>
           byteSize = le_nat (take 4 (drop (nat start) buffer))
                      + le_nat (take 4 (drop (nat start + 4) buffer)) * 2 ^ 32)"
proof -
  let ?result = "parseDataArray createTypedArray appendedMap headerSize element"
  have start: "int (nat start) = start"
    using assms(5) by simp
  have header: "headerSize = 4 \<or> headerSize = 8"
    using assms(6) by (simp add: headerSize_of_def)
  have resolved: "(if am_encoding appendedMap = ''raw''
                  then int (am_offsetStart appendedMap) + offset else offset) = int (nat start)"
    using assms(4) start by simp
  have unfolded: "?result =
      (if nat start \<ge> length buffer then Inr None
       else if nat start + headerSize > length buffer then Inr None
       else (case read_byteSize buffer headerSize (int (nat start)) of
               Inl e \<Rightarrow> Inl e
             | Inr byteSize \<Rightarrow>
                 (if nat start + headerSize + byteSize > length buffer then Inr None
                  else Inr (Some (createTypedArray (da_type element)
                                    (take byteSize (drop (nat start + headerSize) buffer)))))))"
    by (simp only: parseDataArray_def assms(1-3) resolved simp_thms if_True prod.case
          option.case Let_def of_nat_add [symmetric] of_nat_le_iff of_nat_less_iff nat_int)
  have outside: "?result = Inr None" if "nat start + headerSize > length buffer"
    using that by (simp add: unfolded)
  have inside: "?result =
      (if nat start + headerSize + byteSize > length buffer then Inr None
       else Inr (Some (createTypedArray (da_type element)
                         (take byteSize (drop (nat start + headerSize) buffer)))))"
    if fits: "nat start + headerSize \<le> length buffer"
  proof -
    from header fits have "nat start < length buffer"
      by auto
    with fits show ?thesis
      by (simp add: unfolded read_byteSize_le_nat [OF header fits] assms(7) del: int_nat_eq)
  qed
  have eight: "byteSize = le_nat (take 4 (drop (nat start) buffer))
                      + le_nat (take 4 (drop (nat start + 4) buffer)) * 2 ^ 32"
    if "headerSize = 8" and "nat start + 8 \<le> length buffer"
    using that le_nat_8 [of "nat start" buffer] by (simp add: assms(7))
  show ?thesis
    using outside inside eight by (cases "nat start + headerSize \<le> length buffer") auto
qed


theorem appended_array_header_and_payload_witness:
  "parseDataArray uint8_array
     \<lparr>am_buffer = Some [9, 9, 3, 0, 0, 0, 7, 8, 9, 5], am_offsetStart = 2,
      am_encoding = ''raw''\<rparr> 4
     \<lparr>da_format = Some ''appended'', da_type = Some ''UInt8'', da_name = None,
      da_offset = Some (Some 0), da_comps = Some 1, da_bytes = None, da_ascii = []\<rparr> =
   Inr (Some [Num 7, Num 8, Num 9])
   \<and> parseDataArray uint8_array
     \<lparr>am_buffer = Some [9, 9, 3, 0, 0, 0, 7, 8, 9, 5], am_offsetStart = 0,
      am_encoding = ''base64''\<rparr> 4
     \<lparr>da_format = Some ''appended'', da_type = Some ''UInt8'', da_name = None,
      da_offset = Some (Some 5), da_comps = Some 1, da_bytes = None, da_ascii = []\<rparr> =
   Inr None"
proof -
  let ?buffer = "[9, 9, 3, 0, 0, 0, 7, 8, 9, 5] :: byte list"
  let ?raw = "\<lparr>am_buffer = Some ?buffer, am_offsetStart = 2, am_encoding = ''raw''\<rparr>"
  let ?base64 = "\<lparr>am_buffer = Some ?buffer, am_offsetStart = 0, am_encoding = ''base64''\<rparr>"
  let ?at0 = "\<lparr>da_format = Some ''appended'', da_type = Some ''UInt8'', da_name = None,
      da_offset = Some (Some 0), da_comps = Some 1, da_bytes = None, da_ascii = []\<rparr>"
  let ?at5 = "\<lparr>da_format = Some ''appended'', da_type = Some ''UInt8'', da_name = None,
      da_offset = Some (Some 5), da_comps = Some 1, da_bytes = None, da_ascii = []\<rparr>"
  have inside: "parseDataArray uint8_array ?raw 4 ?at0 = Inr (Some [Num 7, Num 8, Num 9])"
    using appended_array_header_and_payload
      [of ?at0 0 ?raw ?buffer 2 4 "''UInt32''" 3 uint8_array]
    by (simp add: uint8_array_def headerSize_of_def)
  have outside: "parseDataArray uint8_array ?base64 4 ?at5 = Inr None"
    using appended_array_header_and_payload
      [of ?at5 5 ?base64 ?buffer 5 4 "''UInt32''" "le_nat (take 4 (drop 5 ?buffer))"
          uint8_array]
    by (simp add: headerSize_of_def)
  from inside outside show ?thesis
    by simp
qed

subsection \<open>Arrays that yield no data\<close>

text \<open>
  \<open>parseDataArray\<close> throws in one situation only: an appended array whose resolved
  start position is negative. Then \<open>getUint32\<close> throws a \<open>RangeError\<close>, and no \<open>try\<close>
  stands around it.
\<close>

lemma parseDataArray_throws:
  assumes "parseDataArray createTypedArray appendedMap headerSize element = Inl e"
    and "headerSize = 4 \<or> headerSize = 8"
  shows "e = RangeError \<and> da_format element = Some ''appended''
         \<and> (\<exists>offset. da_offset element = Some (Some offset)
              \<and> (if am_encoding appendedMap = ''raw''
                  then int (am_offsetStart appendedMap) + offset else offset) < 0)"
proof -
  have uint32: "getUint32 buffer p = Inl e' \<Longrightarrow> e' = RangeError \<and> (p < 0 \<or> nat p + 4 > length buffer)"
    for buffer p e'
    by (auto simp add: getUint32_def Let_def split: if_splits)
  have header: "read_byteSize buffer headerSize p = Inl e' \<Longrightarrow>
      e' = RangeError \<and> (p < 0 \<or> nat p + 4 > length buffer \<or> (headerSize = 8 \<and> nat p + 8 > length buffer))"
    for buffer p e'
    by (auto simp add: read_byteSize_def split: if_splits sum.splits dest!: uint32)
  show ?thesis
    using assms
    by (auto simp add: parseDataArray_def Let_def
        split: if_splits option.splits sum.splits prod.splits dest!: header)
qed

lemma parseDataArray_no_data:
  "da_format element = Some ''binary'' \<Longrightarrow> da_bytes element = None \<Longrightarrow>
   parseDataArray createTypedArray appendedMap headerSize element = Inr None"
  "da_format element = Some ''binary'' \<Longrightarrow> da_bytes element = Some bytes \<Longrightarrow>
   length bytes \<le> headerSize \<Longrightarrow>
   parseDataArray createTypedArray appendedMap headerSize element = Inr None"
  "da_format element = Some ''appended'' \<Longrightarrow> am_buffer appendedMap = None \<Longrightarrow>
   parseDataArray createTypedArray appendedMap headerSize element = Inr None"
  "da_format element = Some ''appended'' \<Longrightarrow> da_offset element = None \<or> da_offset element = Some None \<Longrightarrow>
   parseDataArray createTypedArray appendedMap headerSize element = Inr None"
  by (auto simp add: parseDataArray_def split: option.splits)

lemma vtu_field_no_data:
  "parseDataArray createTypedArray appendedMap headerSize da = Inr None \<Longrightarrow>
   vtu_field createTypedArray appendedMap headerSize da dataFields = Inr dataFields"
  by (simp add: vtu_field_def)

lemma vtu_fields_no_data:
  assumes "parseDataArray createTypedArray appendedMap headerSize da = Inr None"
  shows "vtu_fields createTypedArray appendedMap headerSize (before @ da # after) dataFields =
         vtu_fields createTypedArray appendedMap headerSize (before @ after) dataFields"
proof (induction before arbitrary: dataFields)
  case Nil
  show ?case
    by (simp add: vtu_field_no_data [OF assms])
next
  case (Cons a before)
  show ?case
    by (simp add: Cons.IH split: sum.splits)
qed


text \<open>
  An array for which \<open>parseDataArray\<close> returns \<open>null\<close> is the only thing missing from the
  result: \<open>parse\<close> returns what it returns for the same piece without that array in its
  point data. Malformed base64 in an inline array, a block no longer than the header,
  and an appended array without offset or buffer are such arrays
  (\<open>parseDataArray_no_data\<close>); so is an appended array whose header or payload leaves
  the buffer at its end.
\<close>

theorem vtu_parse_without_failed_array:
  assumes "parseDataArray createTypedArray appendedMap headerSize da = Inr None"
  shows "vtu_parse createTypedArray appendedMap headerSize
           (piece\<lparr>pc_pointData := Some (before @ da # after)\<rparr>) =
         vtu_parse createTypedArray appendedMap headerSize
           (piece\<lparr>pc_pointData := Some (before @ after)\<rparr>)"
  by (simp add: vtu_parse_def Let_def vtu_fields_no_data [OF assms]
      cong del: option.case_cong_weak sum.case_cong_weak prod.case_cong_weak)


lemma vtu_parse_malformed_base64_example:
  "vtu_parse uint8_array example_appended 4
     (example_piece [binary_array ''Float32'' ''pressure'' None,
                     ascii_array ''Float32'' ''t'' [Num 3, Num 1, Num 2]]) =
   Some (Inr \<lparr>vm_position = [Num 0, Num 0, Num 0, Num 1, Num 0, Num 0, Num 0, Num 1, Num 0],
               vm_index = Some [Some (Num 0), Some (Num 1), Some (Num 2)],
               vm_pointData = [\<lparr>sf_name = ''t'', sf_min = Num 1, sf_max = Num 3,
                                sf_data = [Num 3, Num 1, Num 2]\<rparr>],
               vm_cellData = [], vm_cellIdMap = [0]\<rparr>)"
  by code_simp

text \<open>
  C6. The statement does not hold for every out-of-bounds offset. The appended branch
  tests the start position against the end of the buffer only. A point-data array
  \<open>format="appended" offset="-1"\<close> over a base64 block of eight bytes passes both
  tests, \<open>view.getUint32(-1, true)\<close> throws a \<open>RangeError\<close>, and the error leaves
  \<open>parseDataArray\<close>, the \<open>forEach\<close> and \<open>parse\<close>: the decode of a piece whose points and
  cells are sound fails as a whole, where without the array it returns the mesh.
\<close>

theorem vtu_parse_negative_offset:
  "parseDataArray uint8_array example_appended 4 (appended_array ''UInt8'' ''pressure'' (- 1)) =
     Inl RangeError
   \<and> vtu_parse uint8_array example_appended 4
       (example_piece [appended_array ''UInt8'' ''pressure'' (- 1)]) = Some (Inl RangeError)
   \<and> vtu_parse uint8_array example_appended 4 (example_piece []) =
       Some (Inr \<lparr>vm_position = [Num 0, Num 0, Num 0, Num 1, Num 0, Num 0, Num 0, Num 1, Num 0],
                   vm_index = Some [Some (Num 0), Some (Num 1), Some (Num 2)],
                   vm_pointData = [], vm_cellData = [], vm_cellIdMap = [0]\<rparr>)"
  by code_simp


section \<open>Properties of scalar fields\<close>

lemma js_lt_le_trans:
  "a \<noteq> NaN \<Longrightarrow> b \<noteq> NaN \<Longrightarrow> c \<noteq> NaN \<Longrightarrow> \<not> js_lt b a \<Longrightarrow> \<not> js_lt c b \<Longrightarrow> \<not> js_lt c a"
  by (cases a; cases b; cases c) auto

lemma js_lt_asym: "js_lt a b \<Longrightarrow> \<not> js_lt b a"
  by (cases a; cases b) auto

lemma js_lt_irrefl: "\<not> js_lt a a"
  by (cases a) auto

lemma minmax_loop_bounds:
  assumes "NaN \<notin> set data" and "lo \<noteq> NaN" and "hi \<noteq> NaN"
    and "minmax_loop data (lo, hi) = (lo', hi')"
  shows "(lo' = lo \<or> lo' \<in> set data) \<and> \<not> js_lt lo lo' \<and> (\<forall>v \<in> set data. \<not> js_lt v lo')
       \<and> (hi' = hi \<or> hi' \<in> set data) \<and> \<not> js_lt hi' hi \<and> (\<forall>v \<in> set data. \<not> js_lt hi' v)
       \<and> lo' \<noteq> NaN \<and> hi' \<noteq> NaN"
  using assms
proof (induction data arbitrary: lo hi)
  case Nil
  then show ?case by (simp add: js_lt_irrefl)
next
  case (Cons v data)
  let ?lo = "if js_lt v lo then v else lo" and ?hi = "if js_lt hi v then v else hi"
  have v: "v \<noteq> NaN" and data: "NaN \<notin> set data"
    using Cons.prems(1) by auto
  have lo: "?lo \<noteq> NaN" and hi: "?hi \<noteq> NaN"
    using v Cons.prems by auto
  have run: "minmax_loop data (?lo, ?hi) = (lo', hi')"
    using Cons.prems(4) by simp
  note IH = Cons.IH [OF data lo hi run]
  have res: "lo' \<noteq> NaN" "hi' \<noteq> NaN"
    using IH by simp_all
  have lo_le: "\<not> js_lt lo ?lo" "\<not> js_lt v ?lo"
    by (auto simp add: js_lt_irrefl js_lt_asym)
  have hi_le: "\<not> js_lt ?hi hi" "\<not> js_lt ?hi v"
    by (auto simp add: js_lt_irrefl js_lt_asym)
  have "\<not> js_lt lo lo'"
    using js_lt_le_trans [OF res(1) lo Cons.prems(2) _ lo_le(1)] IH by blast
  moreover have "\<not> js_lt v lo'"
    using js_lt_le_trans [OF res(1) lo v _ lo_le(2)] IH by blast
  moreover have "\<not> js_lt hi' hi"
    using js_lt_le_trans [OF Cons.prems(3) hi res(2) hi_le(1)] IH by blast
  moreover have "\<not> js_lt hi' v"
    using js_lt_le_trans [OF v hi res(2) hi_le(2)] IH by blast
  moreover have "lo' = lo \<or> lo' \<in> set (v # data)" "hi' = hi \<or> hi' \<in> set (v # data)"
    using IH by (auto split: if_splits)
  ultimately show ?case
    using IH res by auto
qed

lemma make_field_extrema:
  assumes "NaN \<notin> set data" and "data \<noteq> []"
  shows "true_extrema (make_field name data)"
proof -
  obtain lo hi where run: "minmax_loop data (PosInf, NegInf) = (lo, hi)"
    by (cases "minmax_loop data (PosInf, NegInf)")
  note b = minmax_loop_bounds [OF assms(1) _ _ run, simplified]
  from assms(2) obtain v where v: "v \<in> set data"
    by (cases data) auto
  with assms(1) have vn: "v \<noteq> NaN" by auto
  have "lo \<in> set data"
  proof (rule ccontr)
    assume "lo \<notin> set data"
    with b have "lo = PosInf" by blast
    with b v have "\<not> js_lt v PosInf" by blast
    with vn have "v = PosInf" by (cases v) auto
    with v \<open>lo = PosInf\<close> \<open>lo \<notin> set data\<close> show False by simp
  qed
  moreover have "hi \<in> set data"
  proof (rule ccontr)
    assume "hi \<notin> set data"
    with b have "hi = NegInf" by blast
    with b v have "\<not> js_lt NegInf v" by blast
    with vn have "v = NegInf" by (cases v) auto
    with v \<open>hi = NegInf\<close> \<open>hi \<notin> set data\<close> show False by simp
  qed
  ultimately show ?thesis
    using b by (simp add: true_extrema_def make_field_def run)
qed

lemma vtu_fields_nonempty:
  assumes "vtu_fields createTypedArray appendedMap headerSize dataArrays dataFields = Inr dataFields'"
    and "\<forall>f \<in> set dataFields. sf_data f \<noteq> [] \<and> (NaN \<notin> set (sf_data f) \<longrightarrow> true_extrema f)"
  shows "\<forall>f \<in> set dataFields'. sf_data f \<noteq> [] \<and> (NaN \<notin> set (sf_data f) \<longrightarrow> true_extrema f)"
  using assms
proof (induction dataArrays arbitrary: dataFields)
  case Nil
  then show ?case by simp
next
  case (Cons da dataArrays)
  from Cons.prems(1) obtain mid where
    one: "vtu_field createTypedArray appendedMap headerSize da dataFields = Inr mid" and
    rest: "vtu_fields createTypedArray appendedMap headerSize dataArrays mid = Inr dataFields'"
    by (auto split: sum.splits)
  have data: "sf_data (make_field name data) = data" for name data
    by (simp add: make_field_def split: prod.splits)
  from one Cons.prems(2)
  have "\<forall>f \<in> set mid. sf_data f \<noteq> [] \<and> (NaN \<notin> set (sf_data f) \<longrightarrow> true_extrema f)"
    by (auto simp add: vtu_field_def Let_def data make_field_extrema
        split: if_splits sum.splits option.splits)
  from Cons.IH [OF rest this] show ?case .
qed

lemma sound_make_field: "sound_field (make_field name data)"
proof -
  have "sf_data (make_field name data) = data"
    by (simp add: make_field_def split: prod.splits)
  then show ?thesis
    using make_field_extrema [of data name] by (auto simp add: sound_field_def)
qed

lemma store_points_fields:
  "ls_pointDataFields (store_points vals s) = ls_pointDataFields s"
  "ls_cellDataFields (store_points vals s) = ls_cellDataFields s"
  by (induction vals s rule: store_points.induct) simp_all

lemma legacy_line_sound:
  assumes "legacy_line l s = Inr s'"
    and "\<forall>f \<in> set (ls_pointDataFields s) \<union> set (ls_cellDataFields s). sound_field f"
  shows "\<forall>f \<in> set (ls_pointDataFields s') \<union> set (ls_cellDataFields s'). sound_field f"
proof (cases l)
  case (Values vals)
  with assms show ?thesis
    by (auto simp add: scalar_values_def Let_def store_points_fields sound_make_field
        split: if_splits option.splits)
qed (use assms in \<open>auto split: option.splits if_splits\<close>)

lemma legacy_lines_sound:
  assumes "legacy_lines ls s = Inr s'"
    and "\<forall>f \<in> set (ls_pointDataFields s) \<union> set (ls_cellDataFields s). sound_field f"
  shows "\<forall>f \<in> set (ls_pointDataFields s') \<union> set (ls_cellDataFields s'). sound_field f"
  using assms
proof (induction ls arbitrary: s)
  case Nil
  then show ?case by simp
next
  case (Cons l ls)
  from Cons.prems(1) obtain mid where
    one: "legacy_line l s = Inr mid" and rest: "legacy_lines ls mid = Inr s'"
    by (auto split: sum.splits)
  from Cons.IH [OF rest legacy_line_sound [OF one Cons.prems(2)]] show ?case .
qed


text \<open>
  C7. The last part of the statement does not hold for the legacy decoder. The XML decoder
  pushes a field only \<open>if (data.length > 0)\<close>; the legacy decoder pushes the current
  scalar as soon as \<open>data.length >= targetCount * components\<close>, which a target of 0
  makes true for no values at all. For the file \<open>POINTS 0 float\<close>, \<open>POINT_DATA 0\<close>,
  \<open>SCALARS s float 1\<close>, \<open>LOOKUP_TABLE default\<close>, \<open>VECTORS v float\<close>, whose last line
  is no keyword of the loader and holds no number, \<open>parse\<close> returns a point field with
  empty data, \<open>min = Infinity\<close> and \<open>max = -Infinity\<close>. (Fields that hold values have
  their true extrema, in both decoders: \<open>vtu_fields_nonempty\<close>, \<open>legacy_lines_sound\<close>.)
\<close>

theorem legacy_parse_empty_field:
  "legacy_parse [Points (Some 0), PointData, Scalars ''s'' (Some 1), LookupTable, Values []] =
     Some (Inr \<lparr>lm_position = [], lm_index = None,
                 lm_pointData = [\<lparr>sf_name = ''s'', sf_min = PosInf, sf_max = NegInf,
                                  sf_data = []\<rparr>],
                 lm_cellData = [], lm_cellIdMap = []\<rparr>)"
  by code_simp

end
